theory Spec2Isabelle
  imports Complex_Main
begin

section \<open>SunSeat: sun-exposure scoring and shadow occlusion\<close>

text \<open>
  The scoring core of the service lives in three source files:
  \<^verbatim>\<open>services/sun.js\<close> (\<open>sunScore\<close>), \<^verbatim>\<open>services/shade.js\<close> (the angular and
  geographic helpers, \<open>getSunAngles\<close>, \<open>isShadedByBuildings\<close>) and the request handler of
  \<^verbatim>\<open>index.js\<close> that combines them into the shade-aware score and the forecast.

  Numbers are modelled at two levels. The definitions of the first part read a finite
  binary64 value as the real it denotes and take every arithmetic operation as the exact
  one; they carry the statements about the structure of the code: the filters, the
  confidence and the running maximum of the shadow evaluator, the bands and the clamp of the
  scorer, the forecast. The definitions with the suffix 64 round every arithmetic operation
  to binary64 where the source performs it; they carry the statements in which the rounding
  decides the result: the circular difference, the two azimuth conversions and the cloud
  multiplier of the scorer. \<open>NaN\<close>, the infinities and the sign of zero are outside both.
\<close>

subsection \<open>JavaScript arithmetic\<close>

text \<open>
  The remainder operator \<^verbatim>\<open>a % n\<close> truncates the quotient toward zero, so its result has
  the sign of the dividend. The source only ever divides by the constant 360.
\<close>

definition js_trunc :: "real \<Rightarrow> int" where
  "js_trunc x = (if 0 \<le> x then \<lfloor>x\<rfloor> else \<lceil>x\<rceil>)"

definition js_rem :: "real \<Rightarrow> real \<Rightarrow> real" where
  "js_rem a n = a - n * of_int (js_trunc (a / n))"

text \<open>
  \<^verbatim>\<open>Math.round\<close> rounds to the nearest integer, a tie going up: it is \<open>\<lfloor>x + 1/2\<rfloor>\<close>,
  which is the library's \<^const>\<open>round\<close>.
\<close>

definition Math_round :: "real \<Rightarrow> int" where
  "Math_round x = \<lfloor>x + 1 / 2\<rfloor>"

text \<open>\<^verbatim>\<open>Math.atan2(y, x)\<close> on reals (no signed zero: \<open>atan2 0 x = pi\<close> for negative \<open>x\<close>).\<close>

definition Math_atan2 :: "real \<Rightarrow> real \<Rightarrow> real" where
  "Math_atan2 y x =
     (if 0 < x then arctan (y / x)
      else if x < 0 then (if 0 \<le> y then arctan (y / x) + pi else arctan (y / x) - pi)
      else if 0 < y then pi / 2
      else if y < 0 then - (pi / 2)
      else 0)"

definition Math_hypot :: "real \<Rightarrow> real \<Rightarrow> real" where
  "Math_hypot x y = sqrt (x * x + y * y)"

text \<open>\<^verbatim>\<open>x || 0\<close> on a number: zero is the only falsy real.\<close>

definition or_zero :: "real \<Rightarrow> real" where
  "or_zero x = (if x = 0 then 0 else x)"

subsection \<open>Angular and geographic helpers (\<^verbatim>\<open>shade.js\<close>)\<close>

definition RAD :: real where
  "RAD = 180 / pi"

definition toDeg :: "real \<Rightarrow> real" where
  "toDeg rad = rad * RAD"

definition toRad :: "real \<Rightarrow> real" where
  "toRad deg = deg / RAD"

definition angleDiffDeg :: "real \<Rightarrow> real \<Rightarrow> real" where
  "angleDiffDeg a b = \<bar>js_rem (a - b + 540) 360 - 180\<bar>"

definition bearingDeg :: "real \<Rightarrow> real \<Rightarrow> real \<Rightarrow> real \<Rightarrow> real" where
  "bearingDeg lat1 lon1 lat2 lon2 =
     (let phi1 = toRad lat1; phi2 = toRad lat2;
          lam1 = toRad lon1; lam2 = toRad lon2;
          y = sin (lam2 - lam1) * cos phi2;
          x = cos phi1 * sin phi2 - sin phi1 * cos phi2 * cos (lam2 - lam1)
      in js_rem (toDeg (Math_atan2 y x) + 360) 360)"

definition distanceMeters :: "real \<Rightarrow> real \<Rightarrow> real \<Rightarrow> real \<Rightarrow> real" where
  "distanceMeters lat1 lon1 lat2 lon2 =
     (let latm = (lat1 + lat2) / 2;
          mPerDegLat = 111132;
          mPerDegLon = 111320 * cos (toRad latm);
          dy = (lat2 - lat1) * mPerDegLat;
          dx = (lon2 - lon1) * mPerDegLon
      in Math_hypot dx dy)"

text \<open>
  The inline circular difference of \<open>sunScore\<close>:
  \<^verbatim>\<open>Math.min(Math.abs(az - orientationDeg), 360 - Math.abs(az - orientationDeg))\<close>.
\<close>

definition inlineDiff :: "real \<Rightarrow> real \<Rightarrow> real" where
  "inlineDiff az orientationDeg =
     min \<bar>az - orientationDeg\<bar> (360 - \<bar>az - orientationDeg\<bar>)"

subsection \<open>The solar ephemeris (\<^verbatim>\<open>suncalc\<close>, an external library)\<close>

text \<open>
  \<^verbatim>\<open>SunCalc.getPosition(date, lat, lon)\<close> returns the azimuth in radians, measured from
  the south and positive toward the west, and the altitude in radians. The library is not
  part of the repository; the functions that call it take it as a parameter. A date is its
  \<^verbatim>\<open>getTime()\<close> value, the milliseconds since the epoch.
\<close>

record sun_position =
  azimuth :: real
  altitude :: real

type_synonym ephemeris = "int \<Rightarrow> real \<Rightarrow> real \<Rightarrow> sun_position"

text \<open>An ephemeris that answers every query with the same position, for concrete runs.\<close>

definition fixedPosition :: "real \<Rightarrow> real \<Rightarrow> ephemeris" where
  "fixedPosition az alt d la lo = \<lparr>azimuth = az, altitude = alt\<rparr>"

subsection \<open>Data\<close>

record point =
  lat :: real
  lon :: real

record place = point +
  orientationDeg :: real
  streetWidth :: string

record sun_args = place +
  date :: int
  cloudFraction :: "real option"

record sun_angles =
  azimuthDeg :: real
  altitudeDeg :: real

record building =
  id_osm :: int
  height_m :: real
  centroid :: point

record shade_result =
  shaded :: bool
  confidence :: real
  culprit :: "building option"

record shade_opts =
  maxDist :: real
  azTolerance :: real

record forecast_point =
  tmin :: int
  score :: int

subsection \<open>The solar position adapter (\<^verbatim>\<open>shade.js\<close>)\<close>

definition getSunAngles :: "ephemeris \<Rightarrow> int \<Rightarrow> real \<Rightarrow> real \<Rightarrow> sun_angles" where
  "getSunAngles getPosition d la lo =
     (let pos = getPosition d la lo;
          azDeg = js_rem (toDeg (azimuth pos) + 180 + 360) 360;
          altDeg = toDeg (altitude pos)
      in \<lparr>azimuthDeg = azDeg, altitudeDeg = altDeg\<rparr>)"

subsection \<open>The exposure scorer (\<^verbatim>\<open>sun.js\<close>)\<close>

text \<open>The scorer converts the ephemeris angles itself, without the adapter.\<close>

definition inlineAzimuth :: "sun_position \<Rightarrow> real" where
  "inlineAzimuth pos = js_rem ((azimuth pos * 180) / pi + 180) 360"

definition inlineAltitude :: "sun_position \<Rightarrow> real" where
  "inlineAltitude pos = (altitude pos * 180) / pi"

text \<open>
  \<open>cloudFraction\<close> is \<open>None\<close> when the caller passes \<^verbatim>\<open>undefined\<close>
  (\<^verbatim>\<open>typeof cloudFraction === "number"\<close> is then false). The handler always
  passes \<open>date\<close>, so its default, the current time, is not modelled. The successive
  values of the variable \<^verbatim>\<open>score\<close> are \<open>s0\<close> to \<open>s4\<close>.
\<close>

definition sunScore :: "ephemeris \<Rightarrow> sun_args \<Rightarrow> int" where
  "sunScore getPosition a =
     (let pos = getPosition (date a) (lat a) (lon a);
          az = inlineAzimuth pos;
          alt = inlineAltitude pos;
          diff = inlineDiff az (orientationDeg a);
          s0 = (0 :: real);
          s1 = (if diff < 45 then s0 + 55 else if diff < 90 then s0 + 35 else s0 + 10);
          s2 = (if alt < 8 then s1 - 30 else if alt < 15 then s1 - 15 else s1 + 10);
          s3 = (if alt < 20
                then (if streetWidth a = ''narrow'' then s2 - 15
                      else if streetWidth a = ''medium'' then s2 - 5
                      else s2)
                else s2);
          s4 = (case cloudFraction a of
                  Some c \<Rightarrow> s3 * (1 - 0.6 * c)
                | None \<Rightarrow> s3)
      in max 0 (min 100 (Math_round s4)))"

subsection \<open>The shadow evaluator (\<^verbatim>\<open>shade.js\<close>)\<close>

text \<open>
  One pass of the \<^verbatim>\<open>for (const b of buildings)\<close> loop; \<^verbatim>\<open>continue\<close> leaves
  \<open>best\<close> as it is. The division by \<open>azTolerance\<close> is the real one; a zero tolerance
  (\<open>NaN\<close> or an infinity in JavaScript) is outside the model.
\<close>

definition shadeStep ::
  "point \<Rightarrow> real \<Rightarrow> real \<Rightarrow> shade_opts \<Rightarrow> shade_result \<Rightarrow> building \<Rightarrow> shade_result" where
  "shadeStep terrace azUpSun alt opts best b =
     (let d = distanceMeters (lat terrace) (lon terrace) (lat (centroid b)) (lon (centroid b))
      in if d > maxDist opts then best
         else
           let azToB = bearingDeg (lat terrace) (lon terrace) (lat (centroid b)) (lon (centroid b));
               delta = angleDiffDeg azToB azUpSun
           in if delta > azTolerance opts then best
              else
                let elev = toDeg (Math_atan2 (or_zero (height_m b)) d)
                in if elev \<ge> alt
                   then
                     let conf = min 1 (((elev - alt) / 10) * (1 - delta / azTolerance opts))
                     in if conf > confidence best
                        then \<lparr>shaded = True, confidence = conf, culprit = Some b\<rparr>
                        else best
                   else best)"

fun shadeLoop ::
  "point \<Rightarrow> real \<Rightarrow> real \<Rightarrow> shade_opts \<Rightarrow> shade_result \<Rightarrow> building list \<Rightarrow> shade_result" where
  "shadeLoop terrace azUpSun alt opts best [] = best"
| "shadeLoop terrace azUpSun alt opts best (b # bs) =
     shadeLoop terrace azUpSun alt opts (shadeStep terrace azUpSun alt opts best b) bs"

definition isShadedByBuildings ::
  "point \<Rightarrow> sun_angles \<Rightarrow> building list \<Rightarrow> shade_opts \<Rightarrow> shade_result" where
  "isShadedByBuildings terrace sun buildings opts =
     (let azUpSun = js_rem (azimuthDeg sun + 180) 360;
          alt = altitudeDeg sun;
          best = \<lparr>shaded = False, confidence = 0, culprit = None\<rparr>
      in shadeLoop terrace azUpSun alt opts best buildings)"

text \<open>
  The locals of the loop body, as functions of the building: the planar distance \<open>d\<close>, the
  angular offset \<open>delta\<close> from the direction \<open>azUpSun\<close>, the apparent elevation \<open>elev\<close>
  and the confidence \<open>conf\<close>.
\<close>

definition loop_d :: "point \<Rightarrow> building \<Rightarrow> real" where
  "loop_d terrace b =
     distanceMeters (lat terrace) (lon terrace) (lat (centroid b)) (lon (centroid b))"

definition loop_delta :: "point \<Rightarrow> sun_angles \<Rightarrow> building \<Rightarrow> real" where
  "loop_delta terrace sun b =
     angleDiffDeg
       (bearingDeg (lat terrace) (lon terrace) (lat (centroid b)) (lon (centroid b)))
       (js_rem (azimuthDeg sun + 180) 360)"

definition loop_elev :: "point \<Rightarrow> building \<Rightarrow> real" where
  "loop_elev terrace b = toDeg (Math_atan2 (or_zero (height_m b)) (loop_d terrace b))"

definition loop_conf :: "point \<Rightarrow> sun_angles \<Rightarrow> shade_opts \<Rightarrow> building \<Rightarrow> real" where
  "loop_conf terrace sun opts b =
     min 1 (((loop_elev terrace b - altitudeDeg sun) / 10)
            * (1 - loop_delta terrace sun b / azTolerance opts))"

text \<open>The default of the \<open>opts\<close> parameter, which is also what the request handler passes.\<close>

definition defaultOpts :: shade_opts where
  "defaultOpts = \<lparr>maxDist = 80, azTolerance = 25\<rparr>"

subsection \<open>The request handler (\<^verbatim>\<open>index.js\<close>, \<^verbatim>\<open>/api/terraces/nearby\<close>)\<close>

text \<open>
  For each place the handler computes the shade-aware score at \<open>now\<close> and, when asked, the
  forecast: the same computation at \<open>now + min * 60000\<close> for each offset of a literal array,
  through \<^verbatim>\<open>Array.prototype.map\<close>. The shade factor, written out twice in the
  handler, has a name here.
\<close>

definition shadeFactor :: "shade_result \<Rightarrow> real" where
  "shadeFactor shade =
     (if shaded shade then 0.4 - 0.2 * or_zero (confidence shade) else 1)"

definition placeScore ::
  "ephemeris \<Rightarrow> place \<Rightarrow> building list \<Rightarrow> real option \<Rightarrow> int \<Rightarrow> int" where
  "placeScore getPosition p buildings cf now =
     (let scoreRaw = sunScore getPosition
            \<lparr>lat = lat p, lon = lon p, orientationDeg = orientationDeg p,
             streetWidth = streetWidth p, date = now, cloudFraction = cf\<rparr>;
          sunNow = getSunAngles getPosition now (lat p) (lon p);
          shade = isShadedByBuildings \<lparr>lat = lat p, lon = lon p\<rparr> sunNow buildings
            \<lparr>maxDist = 80, azTolerance = 25\<rparr>
      in max 0 (min 100 (Math_round (of_int scoreRaw * shadeFactor shade))))"

definition forecastEntry ::
  "ephemeris \<Rightarrow> place \<Rightarrow> building list \<Rightarrow> real option \<Rightarrow> int \<Rightarrow> int \<Rightarrow> forecast_point" where
  "forecastEntry getPosition p buildings cf now mins =
     (let d = now + mins * 60000;
          raw = sunScore getPosition
            \<lparr>lat = lat p, lon = lon p, orientationDeg = orientationDeg p,
             streetWidth = streetWidth p, date = d, cloudFraction = cf\<rparr>;
          sunT = getSunAngles getPosition d (lat p) (lon p);
          shadeT = isShadedByBuildings \<lparr>lat = lat p, lon = lon p\<rparr> sunT buildings
            \<lparr>maxDist = 80, azTolerance = 25\<rparr>;
          final = max 0 (min 100 (Math_round (of_int raw * shadeFactor shadeT)))
      in \<lparr>tmin = mins, score = final\<rparr>)"



subsection \<open>The scorer as the specification words it\<close>

text \<open>
  The distance of two angles on the circle of 360 degrees, for any two reals: the smaller
  of the two arcs between them.
\<close>

definition circularDifference :: "real \<Rightarrow> real \<Rightarrow> real" where
  "circularDifference a b =
     (let d = 360 * frac (\<bar>a - b\<bar> / 360) in min d (360 - d))"

text \<open>
  The reference scorer: solar angles from the adapter, then the alignment band, the altitude
  band, the street-width penalty under 20 degrees, the cloud multiplier (1 when the cloud
  fraction is missing), the clamp to \<open>[0, 100]\<close> and the rounding, in this order.
\<close>

definition sunScore_spec :: "ephemeris \<Rightarrow> sun_args \<Rightarrow> int" where
  "sunScore_spec getPosition a =
     (let sun = getSunAngles getPosition (date a) (lat a) (lon a);
          diff = circularDifference (azimuthDeg sun) (orientationDeg a);
          base = (if diff < 45 then 55 else if diff < 90 then 35 else 10);
          altAdj = (if altitudeDeg sun < 8 then - 30
                    else if altitudeDeg sun < 15 then - 15 else 10);
          street = (if altitudeDeg sun < 20
                    then (if streetWidth a = ''narrow'' then - 15
                          else if streetWidth a = ''medium'' then - 5
                          else 0)
                    else 0);
          mult = (case cloudFraction a of Some c \<Rightarrow> 1 - 0.6 * c | None \<Rightarrow> 1)
      in round (max 0 (min 100 ((base + altAdj + street) * mult))))"


subsection \<open>Binary64 arithmetic\<close>

text \<open>
  A JavaScript number is an IEEE 754 binary64 value, and each of \<^verbatim>\<open>+\<close>, \<^verbatim>\<open>-\<close>,
  \<^verbatim>\<open>*\<close> and \<^verbatim>\<open>/\<close> returns the binary64 value nearest to the exact result, a tie
  going to the even significand. \<open>fl\<close> is that rounding: for \<open>2 ^ e \<le> \<bar>x\<bar> < 2 ^ (e + 1)\<close>
  the representable values around \<open>x\<close> are the multiples of \<open>2 ^ (e - 52)\<close>. The exponent
  is not bounded here, so overflow to an infinity and the subnormal range are left out;
  the angles and scores of this program are far from both. The remainder \<^verbatim>\<open>%\<close>,
  \<^verbatim>\<open>Math.abs\<close>, \<^verbatim>\<open>Math.min\<close>, \<^verbatim>\<open>Math.max\<close> and \<^verbatim>\<open>Math.round\<close> are exact on
  binary64 values, and a decimal literal denotes the nearest binary64 value.
\<close>

fun ilog2 :: "nat \<Rightarrow> nat" where
  "ilog2 n = (if n < 2 then 0 else Suc (ilog2 (n div 2)))"

declare ilog2.simps [simp del]

text \<open>The exponent \<open>e\<close> of a positive real: \<open>2 ^ e \<le> a < 2 ^ (e + 1)\<close>.\<close>

definition expo :: "real \<Rightarrow> int" where
  "expo a = (if 1 \<le> a then int (ilog2 (nat \<lfloor>a\<rfloor>))
             else - int (Suc (ilog2 (nat (\<lceil>1 / a\<rceil> - 1)))))"

text \<open>Rounding to the nearest integer, a tie going to the even one.\<close>

definition rne :: "real \<Rightarrow> int" where
  "rne q = (let f = \<lfloor>q\<rfloor>; r = q - of_int f
            in if r < 1 / 2 then f
               else if 1 / 2 < r then f + 1
               else if even f then f else f + 1)"

definition fl :: "real \<Rightarrow> real" where
  "fl x = (if x = 0 then 0
           else let q = 2 powi (expo \<bar>x\<bar> - 52) in of_int (rne (x / q)) * q)"

text \<open>\<^verbatim>\<open>Math.PI\<close>, the binary64 value nearest to \<open>pi\<close>: 3.141592653589793.\<close>

definition Math_PI :: real where
  "Math_PI = 884279719003555 / 2 ^ 48"

subsection \<open>The source on binary64 values\<close>

text \<open>
  The functions of \<^verbatim>\<open>shade.js\<close> and \<^verbatim>\<open>sun.js\<close> whose results depend on the rounding,
  with every arithmetic operation of the source rounded where it stands. Each carries the
  name of the exact-real definition above with the suffix 64.
\<close>

definition RAD64 :: real where
  "RAD64 = fl (180 / Math_PI)"

definition toDeg64 :: "real \<Rightarrow> real" where
  "toDeg64 rad = fl (rad * RAD64)"

definition angleDiffDeg64 :: "real \<Rightarrow> real \<Rightarrow> real" where
  "angleDiffDeg64 a b = \<bar>fl (js_rem (fl (fl (a - b) + 540)) 360 - 180)\<bar>"

definition inlineDiff64 :: "real \<Rightarrow> real \<Rightarrow> real" where
  "inlineDiff64 az orient =
     min \<bar>fl (az - orient)\<bar> (fl (360 - \<bar>fl (az - orient)\<bar>))"


definition inlineAzimuth64 :: "sun_position \<Rightarrow> real" where
  "inlineAzimuth64 pos = js_rem (fl (fl (fl (azimuth pos * 180) / Math_PI) + 180)) 360"

definition inlineAltitude64 :: "sun_position \<Rightarrow> real" where
  "inlineAltitude64 pos = fl (fl (altitude pos * 180) / Math_PI)"

definition sunScore64 :: "ephemeris \<Rightarrow> sun_args \<Rightarrow> int" where
  "sunScore64 getPosition a =
     (let pos = getPosition (date a) (lat a) (lon a);
          az = inlineAzimuth64 pos;
          alt = inlineAltitude64 pos;
          diff = inlineDiff64 az (orientationDeg a);
          s0 = (0 :: real);
          s1 = (if diff < 45 then fl (s0 + 55)
                else if diff < 90 then fl (s0 + 35) else fl (s0 + 10));
          s2 = (if alt < 8 then fl (s1 - 30)
                else if alt < 15 then fl (s1 - 15) else fl (s1 + 10));
          s3 = (if alt < 20
                then (if streetWidth a = ''narrow'' then fl (s2 - 15)
                      else if streetWidth a = ''medium'' then fl (s2 - 5)
                      else s2)
                else s2);
          s4 = (case cloudFraction a of
                  Some c \<Rightarrow> fl (s3 * fl (1 - fl (fl 0.6 * c)))
                | None \<Rightarrow> s3)
      in max 0 (min 100 (Math_round s4)))"

text \<open>
  The reference scorer on binary64 values: the bands are chosen on the binary64 difference
  and altitude of the scorer and added as integers; the sum is multiplied, in binary64, by
  the binary64 value of \<open>1 - 0.6 * cloudFraction\<close>, or left as it is when the cloud
  fraction is missing; the product is clamped to \<open>[0, 100]\<close> and rounded.
\<close>

definition sunScore_spec64 :: "ephemeris \<Rightarrow> sun_args \<Rightarrow> int" where
  "sunScore_spec64 getPosition a =
     (let pos = getPosition (date a) (lat a) (lon a);
          diff = inlineDiff64 (inlineAzimuth64 pos) (orientationDeg a);
          alt = inlineAltitude64 pos;
          base = (if diff < 45 then 55 else if diff < 90 then 35 else (10 :: int));
          altAdj = (if alt < 8 then - 30 else if alt < 15 then - 15 else (10 :: int));
          street = (if alt < 20
                    then (if streetWidth a = ''narrow'' then - 15
                          else if streetWidth a = ''medium'' then - 5
                          else 0)
                    else (0 :: int));
          bands = of_int (base + altAdj + street);
          product = (case cloudFraction a of
                       Some c \<Rightarrow> fl (bands * fl (1 - fl (fl 0.6 * c)))
                     | None \<Rightarrow> bands)
      in round (max 0 (min 100 product)))"

subsection \<open>The loop invariant and a concrete street\<close>

text \<open>
  What the loop keeps true of \<open>best\<close>: without a culprit it is the initial value; with
  one, it is shaded with the positive confidence of that culprit, a building that passed
  both filters and rises at least as high as the sun.
\<close>

definition best_inv :: "point \<Rightarrow> sun_angles \<Rightarrow> shade_opts \<Rightarrow> shade_result \<Rightarrow> bool" where
  "best_inv terrace sun opts best \<longleftrightarrow>
     (case culprit best of
        None \<Rightarrow> \<not> shaded best \<and> confidence best = 0
      | Some c \<Rightarrow> shaded best \<and> 0 < confidence best
          \<and> confidence best = loop_conf terrace sun opts c
          \<and> loop_d terrace c \<le> maxDist opts
          \<and> loop_delta terrace sun c \<le> azTolerance opts
          \<and> altitudeDeg sun \<le> loop_elev terrace c)"

text \<open>
  Concrete inputs: a terrace at latitude 48, longitude 2, and a building of a given height
  due north of it, on the same meridian, at a given latitude.
\<close>

definition exTerrace :: point where
  "exTerrace = \<lparr>lat = 48, lon = 2\<rparr>"

definition exBuilding :: "real \<Rightarrow> real \<Rightarrow> building" where
  "exBuilding la h = \<lparr>id_osm = 1, height_m = h, centroid = \<lparr>lat = la, lon = 2\<rparr>\<rparr>"

definition exSun :: "real \<Rightarrow> real \<Rightarrow> sun_angles" where
  "exSun az alt = \<lparr>azimuthDeg = az, altitudeDeg = alt\<rparr>"

section \<open>Properties\<close>

subsection \<open>The remainder by 360\<close>

lemma js_rem_360_window:
  assumes "of_int k * 360 \<le> t" and "t < of_int k * 360 + 360" and "0 \<le> k"
  shows "js_rem t 360 = t - 360 * of_int k"
proof -
  have nonneg: "0 \<le> t / 360"
    using assms by (simp add: order_trans [of 0 "of_int k * 360" t])
  have lo: "of_int k \<le> t / 360"
    using assms(1) by simp
  have hi: "t / 360 < of_int k + 1"
    using assms(2) by simp
  have "\<lfloor>t / 360\<rfloor> = k"
    using lo hi by (rule floor_unique)
  with nonneg show ?thesis
    by (simp add: js_rem_def js_trunc_def)
qed

lemma js_rem_360_0: "0 \<le> t \<Longrightarrow> t < 360 \<Longrightarrow> js_rem t 360 = t"
  using js_rem_360_window [of 0 t] by simp

lemma js_rem_360_1: "360 \<le> t \<Longrightarrow> t < 720 \<Longrightarrow> js_rem t 360 = t - 360"
  using js_rem_360_window [of 1 t] by simp

lemma js_rem_360_2: "720 \<le> t \<Longrightarrow> t < 1080 \<Longrightarrow> js_rem t 360 = t - 720"
  using js_rem_360_window [of 2 t] by simp

lemma angleDiffDeg_inline:
  assumes "0 \<le> a" "a < 360" "0 \<le> b" "b < 360"
  shows "angleDiffDeg a b = inlineDiff a b"
proof -
  let ?t = "a - b + 540"
  consider (low) "?t < 360" | (mid) "360 \<le> ?t" "?t < 720" | (high) "720 \<le> ?t"
    by linarith
  then show ?thesis
  proof cases
    case low
    with assms have "js_rem ?t 360 = ?t"
      by (intro js_rem_360_0) linarith+
    with low assms show ?thesis
      by (simp add: angleDiffDeg_def inlineDiff_def)
  next
    case mid
    then have "js_rem ?t 360 = ?t - 360"
      by (rule js_rem_360_1)
    with mid show ?thesis
      by (simp add: angleDiffDeg_def inlineDiff_def)
  next
    case high
    with assms have "js_rem ?t 360 = ?t - 720"
      by (intro js_rem_360_2) linarith+
    with high assms show ?thesis
      by (simp add: angleDiffDeg_def inlineDiff_def)
  qed
qed

subsection \<open>Rounding and the circular difference over the reals\<close>

lemma Math_round_eq: "Math_round x = round x"
  by (simp add: Math_round_def round_def)

lemma round_clamp: "max 0 (min 100 (round (x::real))) = round (max 0 (min 100 x))"
proof -
  consider "x < 0" | "0 \<le> x" "x \<le> 100" | "100 < x" by linarith
  then show ?thesis
  proof cases
    case 1
    then have "round x \<le> 0" using round_mono [of x 0] by simp
    with 1 show ?thesis by (simp add: max_def min_def)
  next
    case 2
    then have "0 \<le> round x" "round x \<le> 100"
      using round_mono [of 0 x] round_mono [of x 100] by simp_all
    with 2 show ?thesis by (simp add: max_def min_def)
  next
    case 3
    then have "100 \<le> round x" using round_mono [of 100 x] by simp
    with 3 show ?thesis by (simp add: max_def min_def)
  qed
qed

lemma inlineDiff_circular:
  assumes "0 \<le> a" "a < 360" "0 \<le> b" "b < 360"
  shows "inlineDiff a b = circularDifference a b"
proof -
  have "0 \<le> \<bar>a - b\<bar> / 360" "\<bar>a - b\<bar> / 360 < 1"
    using assms by auto
  then have "frac (\<bar>a - b\<bar> / 360) = \<bar>a - b\<bar> / 360"
    by (simp add: frac_eq)
  then have "360 * frac (\<bar>a - b\<bar> / 360) = \<bar>a - b\<bar>"
    by simp
  then show ?thesis
    unfolding inlineDiff_def circularDifference_def Let_def by simp
qed

subsection \<open>Rounding to binary64\<close>

lemma ilog2_bounds:
  "1 \<le> n \<Longrightarrow> 2 ^ ilog2 n \<le> n \<and> n < 2 ^ Suc (ilog2 n)"
proof (induction n rule: ilog2.induct)
  case (1 n)
  show ?case
  proof (cases "n < 2")
    case True
    with "1.prems" show ?thesis by (simp add: ilog2.simps)
  next
    case False
    then have half: "1 \<le> n div 2" by simp
    from "1.IH" [OF False half]
    have lo: "2 ^ ilog2 (n div 2) \<le> n div 2" and hi: "n div 2 < 2 ^ Suc (ilog2 (n div 2))"
      by simp_all
    have eq: "ilog2 n = Suc (ilog2 (n div 2))"
      using False by (subst ilog2.simps) simp
    from lo have "2 * 2 ^ ilog2 (n div 2) \<le> 2 * (n div 2)" by simp
    also have "\<dots> \<le> n" by simp
    finally have a: "2 ^ ilog2 n \<le> n" by (simp add: eq)
    from hi have "n div 2 + 1 \<le> 2 ^ Suc (ilog2 (n div 2))" by simp
    then have "2 * (n div 2) + 2 \<le> 2 * 2 ^ Suc (ilog2 (n div 2))" by simp
    moreover have "n < 2 * (n div 2) + 2" by presburger
    ultimately have b: "n < 2 ^ Suc (ilog2 n)" by (simp add: eq)
    from a b show ?thesis by simp
  qed
qed

lemma expo_bounds:
  assumes "0 < a"
  shows "2 powi (expo a) \<le> a" and "a < 2 powi (expo a + 1)"
proof -
  have "2 powi (expo a) \<le> a \<and> a < 2 powi (expo a + 1)"
  proof (cases "1 \<le> a")
    case True
    define n where "n = nat \<lfloor>a\<rfloor>"
    have n1: "1 \<le> n" using True by (simp add: n_def le_nat_iff le_floor_iff)
    have nle: "real n \<le> a" using True by (simp add: n_def)
    have alt: "a < real n + 1" using True by (simp add: n_def)
    from ilog2_bounds [OF n1]
    have lo: "(2::nat) ^ ilog2 n \<le> n" and hi: "n < (2::nat) ^ Suc (ilog2 n)" by simp_all
    from lo have "(2::real) ^ ilog2 n \<le> real n"
      by (metis of_nat_le_iff of_nat_numeral of_nat_power)
    with nle have A: "(2::real) ^ ilog2 n \<le> a" by linarith
    from hi have "n + 1 \<le> (2::nat) ^ Suc (ilog2 n)" by simp
    then have "real (n + 1) \<le> (2::real) ^ Suc (ilog2 n)"
      by (metis of_nat_le_iff of_nat_numeral of_nat_power)
    with alt have B: "a < (2::real) ^ Suc (ilog2 n)" by simp
    have e: "expo a = int (ilog2 n)" using True by (simp add: expo_def n_def)
    have e1: "expo a + 1 = int (Suc (ilog2 n))" using e by simp
    show ?thesis unfolding e1 unfolding e power_int_of_nat using A B by simp
  next
    case False
    define y where "y = 1 / a"
    have y1: "1 < y" using False assms by (simp add: y_def)
    define m where "m = nat (\<lceil>y\<rceil> - 1)"
    have c2: "2 \<le> \<lceil>y\<rceil>" using y1 by (simp add: le_ceiling_iff)
    have m1: "1 \<le> m" unfolding m_def using c2 by linarith
    have ym: "y \<le> real m + 1"
    proof -
      have "y \<le> of_int \<lceil>y\<rceil>" by simp
      also have "of_int \<lceil>y\<rceil> = real m + 1" unfolding m_def using c2 by linarith
      finally show ?thesis .
    qed
    have my: "real m < y"
    proof -
      have "of_int \<lceil>y\<rceil> - 1 < y" by linarith
      moreover have "real m = of_int \<lceil>y\<rceil> - 1" unfolding m_def using c2 by linarith
      ultimately show ?thesis by simp
    qed
    from ilog2_bounds [OF m1]
    have lo: "(2::nat) ^ ilog2 m \<le> m" and hi: "m < (2::nat) ^ Suc (ilog2 m)" by simp_all
    from lo have "(2::real) ^ ilog2 m \<le> real m"
      by (metis of_nat_le_iff of_nat_numeral of_nat_power)
    with my have A: "(2::real) ^ ilog2 m < y" by linarith
    from hi have "m + 1 \<le> (2::nat) ^ Suc (ilog2 m)" by simp
    then have "real (m + 1) \<le> (2::real) ^ Suc (ilog2 m)"
      by (metis of_nat_le_iff of_nat_numeral of_nat_power)
    with ym have B: "y \<le> (2::real) ^ Suc (ilog2 m)" by simp
    have e: "expo a = - int (Suc (ilog2 m))"
      using False by (simp add: expo_def m_def y_def)
    have e1: "expo a + 1 = - int (ilog2 m)" using e by simp
    have P: "2 powi (expo a) = 1 / (2::real) ^ Suc (ilog2 m)"
      unfolding e power_int_minus_divide power_int_of_nat ..
    have Q: "2 powi (expo a + 1) = 1 / (2::real) ^ ilog2 m"
      unfolding e1 power_int_minus_divide power_int_of_nat ..
    have ya: "a = 1 / y" using assms by (simp add: y_def)
    have ypos: "0 < y" using y1 by simp
    have "1 / (2::real) ^ Suc (ilog2 m) \<le> 1 / y"
      using B ypos by (intro divide_left_mono) simp_all
    then have L: "1 / (2::real) ^ Suc (ilog2 m) \<le> a"
      by (simp only: ya [symmetric])
    have "1 / y < 1 / (2::real) ^ ilog2 m"
      using A ypos by (intro divide_strict_left_mono) simp_all
    then have U: "a < 1 / (2::real) ^ ilog2 m"
      by (simp only: ya [symmetric])
    from L U show ?thesis by (simp only: P Q)
  qed
  then show "2 powi (expo a) \<le> a" and "a < 2 powi (expo a + 1)" by simp_all
qed

lemma expo_le:
  assumes "0 < a" "a < 2 powi (e + 1)"
  shows "expo a \<le> e"
proof (rule ccontr)
  assume "\<not> expo a \<le> e"
  then have "e + 1 \<le> expo a" by simp
  then have "(2::real) powi (e + 1) \<le> 2 powi (expo a)"
    by (intro power_int_increasing) simp_all
  also have "\<dots> \<le> a" using assms(1) by (rule expo_bounds)
  finally show False using assms(2) by simp
qed

lemma expo_ge:
  assumes "0 < a" "2 powi e \<le> a"
  shows "e \<le> expo a"
proof (rule ccontr)
  assume "\<not> e \<le> expo a"
  then have "expo a + 1 \<le> e" by simp
  then have "(2::real) powi (expo a + 1) \<le> 2 powi e"
    by (intro power_int_increasing) simp_all
  moreover have "a < 2 powi (expo a + 1)" using assms(1) by (rule expo_bounds)
  ultimately show False using assms(2) by simp
qed

lemma expo_mono: "0 < a \<Longrightarrow> a \<le> b \<Longrightarrow> expo a \<le> expo b"
  using expo_ge [of b "expo a"] expo_bounds(1) [of a] by simp


lemma rne_cases:
  obtains (down) "rne q = \<lfloor>q\<rfloor>" "q - of_int \<lfloor>q\<rfloor> \<le> 1 / 2"
        | (up) "rne q = \<lfloor>q\<rfloor> + 1" "1 / 2 \<le> q - of_int \<lfloor>q\<rfloor>"
proof -
  let ?r = "q - of_int \<lfloor>q\<rfloor>"
  consider "?r < 1 / 2" | "1 / 2 < ?r" | "?r = 1 / 2" "even \<lfloor>q\<rfloor>" | "?r = 1 / 2" "odd \<lfloor>q\<rfloor>"
    by linarith
  then show thesis
  proof cases
    case 1
    then have "rne q = \<lfloor>q\<rfloor>" by (simp add: rne_def Let_def)
    with 1 show ?thesis by (intro down) simp_all
  next
    case 2
    then have "rne q = \<lfloor>q\<rfloor> + 1" by (simp add: rne_def Let_def)
    with 2 show ?thesis by (intro up) simp_all
  next
    case 3
    then have "rne q = \<lfloor>q\<rfloor>" by (simp add: rne_def Let_def)
    with 3 show ?thesis by (intro down) simp_all
  next
    case 4
    then have "rne q = \<lfloor>q\<rfloor> + 1" by (simp add: rne_def Let_def)
    with 4 show ?thesis by (intro up) simp_all
  qed
qed

lemma rne_error: "\<bar>of_int (rne q) - q\<bar> \<le> 1 / 2"
proof (cases q rule: rne_cases)
  case down
  have "of_int \<lfloor>q\<rfloor> \<le> q" by simp
  with down show ?thesis by simp
next
  case up
  have "q < of_int \<lfloor>q\<rfloor> + 1" by simp
  with up show ?thesis by simp
qed

lemma rne_int [simp]: "rne (of_int n) = n"
  by (simp add: rne_def)

lemma rne_mono:
  assumes "p \<le> q"
  shows "rne p \<le> rne q"
proof (cases "\<lfloor>p\<rfloor> = \<lfloor>q\<rfloor>")
  case True
  let ?f = "\<lfloor>q\<rfloor>"
  have le: "p - of_int ?f \<le> q - of_int ?f" using assms by simp
  have P: "rne p = (if p - of_int ?f < 1 / 2 then ?f
                    else if 1 / 2 < p - of_int ?f then ?f + 1
                    else if even ?f then ?f else ?f + 1)"
    by (simp only: rne_def Let_def True)
  have Q: "rne q = (if q - of_int ?f < 1 / 2 then ?f
                    else if 1 / 2 < q - of_int ?f then ?f + 1
                    else if even ?f then ?f else ?f + 1)"
    by (simp only: rne_def Let_def)
  consider "p - of_int ?f < 1 / 2" | "1 / 2 < p - of_int ?f" | "p - of_int ?f = 1 / 2"
    by linarith
  then show ?thesis
  proof cases
    case 1
    then have "rne p = ?f" unfolding P by simp
    moreover have "?f \<le> rne q" by (cases q rule: rne_cases) simp_all
    ultimately show ?thesis by simp
  next
    case 2
    with le have "1 / 2 < q - of_int ?f" by linarith
    with 2 show ?thesis unfolding P Q by simp
  next
    case 3
    with le have "1 / 2 \<le> q - of_int ?f" by linarith
    then consider "1 / 2 < q - of_int ?f" | "q - of_int ?f = 1 / 2" by linarith
    then show ?thesis
    proof cases
      case 1
      then have "rne q = ?f + 1" unfolding Q by simp
      moreover have "rne p \<le> ?f + 1" unfolding P by simp
      ultimately show ?thesis by simp
    next
      case 2
      with 3 show ?thesis unfolding P Q by simp
    qed
  qed
next
  case False
  then have "\<lfloor>p\<rfloor> + 1 \<le> \<lfloor>q\<rfloor>" using floor_mono [OF assms] by linarith
  moreover have "rne p \<le> \<lfloor>p\<rfloor> + 1" by (cases p rule: rne_cases) simp_all
  moreover have "\<lfloor>q\<rfloor> \<le> rne q" by (cases q rule: rne_cases) simp_all
  ultimately show ?thesis by linarith
qed

lemma rne_neg: "rne (- q) = - rne q"
proof (cases "q = of_int \<lfloor>q\<rfloor>")
  case True
  then obtain n where n: "q = of_int n" ..
  then have "- q = of_int (- n)" by simp
  then show ?thesis using n by (simp only: rne_int)
next
  case False
  let ?f = "\<lfloor>q\<rfloor>"
  let ?r = "q - of_int ?f"
  have fl: "\<lfloor>- q\<rfloor> = - ?f - 1"
    using False by (simp add: floor_minus ceiling_altdef)
  have r: "- q - of_int (- ?f - 1) = 1 - ?r" by simp
  have N: "rne (- q) = (if 1 - ?r < 1 / 2 then - ?f - 1
                        else if 1 / 2 < 1 - ?r then - ?f
                        else if even (- ?f - 1) then - ?f - 1 else - ?f)"
    unfolding rne_def Let_def fl r by simp
  have Q: "rne q = (if ?r < 1 / 2 then ?f
                    else if 1 / 2 < ?r then ?f + 1
                    else if even ?f then ?f else ?f + 1)"
    by (simp only: rne_def Let_def)
  consider "?r < 1 / 2" | "1 / 2 < ?r" | "?r = 1 / 2" by linarith
  then show ?thesis
  proof cases
    case 1
    then show ?thesis unfolding N Q by simp
  next
    case 2
    then show ?thesis unfolding N Q by simp
  next
    case 3
    then show ?thesis unfolding N Q by simp
  qed
qed


lemma fl_zero [simp]: "fl 0 = 0"
  by (simp add: fl_def)

lemma fl_neg: "fl (- x) = - fl x"
  by (simp add: fl_def Let_def rne_neg)

lemma quantum_pos: "0 < (2::real) powi e"
  by simp

lemma fl_error:
  assumes "x \<noteq> 0"
  shows "\<bar>fl x - x\<bar> \<le> 2 powi (expo \<bar>x\<bar> - 53)"
proof -
  let ?q = "(2::real) powi (expo \<bar>x\<bar> - 52)"
  have q: "0 < ?q" by simp
  have "fl x - x = (of_int (rne (x / ?q)) - x / ?q) * ?q"
    using assms q by (simp add: fl_def Let_def algebra_simps)
  then have "\<bar>fl x - x\<bar> = \<bar>of_int (rne (x / ?q)) - x / ?q\<bar> * ?q"
    using q by (simp add: abs_mult)
  also have "\<dots> \<le> (1 / 2) * ?q"
    using q by (intro mult_right_mono rne_error) simp
  also have "(1 / 2) * ?q = 2 powi (expo \<bar>x\<bar> - 53)"
  proof -
    have "(2::real) powi (expo \<bar>x\<bar> - 52) = 2 powi (expo \<bar>x\<bar> - 53 + 1)" by simp
    also have "\<dots> = 2 powi (expo \<bar>x\<bar> - 53) * 2"
      by (subst power_int_add_1) simp_all
    finally show ?thesis by simp
  qed
  finally show ?thesis .
qed

lemma fl_error_below:
  assumes "\<bar>x\<bar> < 2 powi (e + 1)"
  shows "\<bar>fl x - x\<bar> \<le> 2 powi (e - 53)"
proof (cases "x = 0")
  case True
  then show ?thesis by simp
next
  case False
  then have "expo \<bar>x\<bar> \<le> e" using assms by (intro expo_le) simp_all
  then have "(2::real) powi (expo \<bar>x\<bar> - 53) \<le> 2 powi (e - 53)"
    by (intro power_int_increasing) simp_all
  with fl_error [OF False] show ?thesis by linarith
qed

lemma fl_pos_bounds:
  assumes "0 < x"
  shows "2 powi (expo x) \<le> fl x" and "fl x \<le> 2 powi (expo x + 1)"
proof -
  let ?e = "expo x"
  let ?q = "(2::real) powi (?e - 52)"
  have q: "0 < ?q" by simp
  have f: "fl x = of_int (rne (x / ?q)) * ?q"
    using assms by (simp add: fl_def Let_def)
  have lo: "2 powi ?e = (2::real) ^ 52 * ?q"
    by (simp add: power_int_diff)
  have hi: "2 powi (?e + 1) = (2::real) ^ 53 * ?q"
    by (simp add: power_int_diff power_int_add)
  have "(2::real) ^ 52 * ?q \<le> x"
    using expo_bounds(1) [OF assms] by (simp only: lo)
  then have "(2::real) ^ 52 \<le> x / ?q"
    using q by (simp add: pos_le_divide_eq)
  then have "of_int (2 ^ 52) \<le> x / ?q" by simp
  then have "rne (of_int (2 ^ 52)) \<le> rne (x / ?q)" by (rule rne_mono)
  then have "(2::int) ^ 52 \<le> rne (x / ?q)" by (simp only: rne_int)
  then have "(2::real) ^ 52 \<le> of_int (rne (x / ?q))"
    by (metis of_int_le_iff of_int_numeral of_int_power)
  then have "(2::real) ^ 52 * ?q \<le> of_int (rne (x / ?q)) * ?q"
    using q by (intro mult_right_mono) simp_all
  then show "2 powi (expo x) \<le> fl x" by (simp only: lo f)
  have "x < (2::real) ^ 53 * ?q"
    using expo_bounds(2) [OF assms] by (simp only: hi)
  then have "x / ?q \<le> (2::real) ^ 53"
    using q by (simp add: pos_divide_le_eq)
  then have "x / ?q \<le> of_int (2 ^ 53)" by simp
  then have "rne (x / ?q) \<le> rne (of_int (2 ^ 53))" by (rule rne_mono)
  then have "rne (x / ?q) \<le> (2::int) ^ 53" by (simp only: rne_int)
  then have "of_int (rne (x / ?q)) \<le> (2::real) ^ 53"
    by (metis of_int_le_iff of_int_numeral of_int_power)
  then have "of_int (rne (x / ?q)) * ?q \<le> (2::real) ^ 53 * ?q"
    using q by (intro mult_right_mono) simp_all
  then show "fl x \<le> 2 powi (expo x + 1)" by (simp only: hi f)
qed

lemma fl_mono_pos:
  assumes "0 < x" "x \<le> y"
  shows "fl x \<le> fl y"
proof -
  have y: "0 < y" using assms by simp
  have le: "expo x \<le> expo y" using assms by (rule expo_mono)
  show ?thesis
  proof (cases "expo x = expo y")
    case True
    let ?q = "(2::real) powi (expo y - 52)"
    have q: "0 < ?q" by simp
    have "x / ?q \<le> y / ?q" using assms(2) q by (simp add: divide_right_mono)
    then have "rne (x / ?q) \<le> rne (y / ?q)" by (rule rne_mono)
    then have "of_int (rne (x / ?q)) * ?q \<le> of_int (rne (y / ?q)) * ?q"
      using q by (intro mult_right_mono) simp_all
    then show ?thesis
      using assms(1) y True by (simp add: fl_def Let_def)
  next
    case False
    with le have "expo x + 1 \<le> expo y" by simp
    then have "(2::real) powi (expo x + 1) \<le> 2 powi (expo y)"
      by (intro power_int_increasing) simp_all
    with fl_pos_bounds(2) [OF assms(1)] fl_pos_bounds(1) [OF y] show ?thesis
      by linarith
  qed
qed

lemma fl_nonneg: "0 \<le> x \<Longrightarrow> 0 \<le> fl x"
proof (cases "x = 0")
  case False
  assume "0 \<le> x"
  with False have "0 < x" by simp
  from fl_pos_bounds(1) [OF this] show ?thesis
    using quantum_pos [of "expo x"] by linarith
qed simp

lemma fl_mono:
  assumes "x \<le> y"
  shows "fl x \<le> fl y"
proof -
  consider "0 < x" | "x \<le> 0" "0 \<le> y" | "y < 0" using assms by linarith
  then show ?thesis
  proof cases
    case 1
    then show ?thesis using assms by (rule fl_mono_pos)
  next
    case 2
    then have "0 \<le> fl (- x)" "0 \<le> fl y" by (simp_all add: fl_nonneg)
    then show ?thesis by (simp add: fl_neg)
  next
    case 3
    then have "fl (- y) \<le> fl (- x)" using assms by (intro fl_mono_pos) simp_all
    then show ?thesis by (simp add: fl_neg)
  qed
qed

lemma fl_exact:
  assumes "x = of_int m * 2 powi k" and "\<bar>m\<bar> < 2 ^ 53"
  shows "fl x = x"
proof (cases "x = 0")
  case True
  then show ?thesis by simp
next
  case False
  let ?e = "expo \<bar>x\<bar>"
  have ax: "0 < \<bar>x\<bar>" using False by simp
  have "\<bar>x\<bar> = of_int \<bar>m\<bar> * 2 powi k"
    unfolding assms(1) by (simp add: abs_mult)
  moreover have "of_int \<bar>m\<bar> < (2::real) ^ 53"
    using assms(2) by (metis of_int_less_iff of_int_numeral of_int_power)
  ultimately have "\<bar>x\<bar> < 2 ^ 53 * 2 powi k"
    by (simp add: mult_strict_right_mono)
  also have "\<dots> = 2 powi (k + 52 + 1)"
    by (simp add: power_int_add)
  finally have "?e \<le> k + 52" using ax by (intro expo_le) simp_all
  then obtain j :: nat where j: "k = ?e - 52 + int j"
    by (metis add.commute diff_le_eq nonneg_int_cases add_diff_eq diff_add_cancel zle_iff_zadd)
  let ?q = "(2::real) powi (?e - 52)"
  have q: "0 < ?q" by simp
  have pk: "2 powi k = ?q * (2::real) ^ j"
    by (subst j) (simp add: power_int_add)
  have "x = of_int m * (?q * 2 ^ j)"
    by (simp only: pk [symmetric] assms(1) [symmetric])
  also have "\<dots> = of_int (m * 2 ^ j) * ?q"
    by (simp add: mult_ac)
  finally have xq: "x = of_int (m * 2 ^ j) * ?q" .
  then have "x / ?q = of_int (m * 2 ^ j)"
    using q by (simp add: field_simps)
  then have "rne (x / ?q) = m * 2 ^ j" by (simp only: rne_int)
  then have "fl x = of_int (m * 2 ^ j) * ?q"
    using False by (simp add: fl_def Let_def)
  with xq show ?thesis by simp
qed

lemma fl_int:
  assumes "\<bar>n\<bar> < 2 ^ 53"
  shows "fl (of_int n) = of_int n"
  using fl_exact [of "of_int n" n 0] assms by simp

section \<open>The claims\<close>

subsection \<open>Geometry utilities: the circular difference on binary64 values\<close>

lemma js_rem_360_range:
  assumes "0 \<le> t"
  shows "0 \<le> js_rem t 360" and "js_rem t 360 < 360"
proof -
  have q: "0 \<le> t / 360" using assms by simp
  have r: "js_rem t 360 = t - 360 * of_int \<lfloor>t / 360\<rfloor>"
    using q by (simp add: js_rem_def js_trunc_def)
  define k :: real where "k = of_int \<lfloor>t / 360\<rfloor>"
  have "k \<le> t / 360" "t / 360 < k + 1" unfolding k_def by linarith+
  then have "k * 360 \<le> t" "t < k * 360 + 360" by simp_all
  then show "0 \<le> js_rem t 360" "js_rem t 360 < 360"
    unfolding r k_def [symmetric] by simp_all
qed

lemma triangle_wave:
  assumes "180 \<le> t" "t \<le> 900"
  shows "\<bar>js_rem t 360 - 180\<bar> = 180 - \<bar>\<bar>t - 540\<bar> - 180\<bar>"
proof -
  consider (low) "t < 360" | (mid) "360 \<le> t" "t < 720" | (high) "720 \<le> t"
    by linarith
  then show ?thesis
  proof cases
    case low
    with assms have "js_rem t 360 = t" by (intro js_rem_360_0) linarith+
    with low assms show ?thesis by simp
  next
    case mid
    then have "js_rem t 360 = t - 360" by (rule js_rem_360_1)
    with mid show ?thesis by simp
  next
    case high
    with assms have "js_rem t 360 = t - 720" by (intro js_rem_360_2) linarith+
    with high assms show ?thesis by simp
  qed
qed

lemma fl_numeral [simp]: "(numeral k :: int) < 2 ^ 53 \<Longrightarrow> fl (numeral k) = numeral k"
  using fl_int [of "numeral k"] by simp

lemma fl_between:
  assumes "lo \<le> x" "x \<le> hi" "fl lo = lo" "fl hi = hi"
  shows "lo \<le> fl x" "fl x \<le> hi"
  using fl_mono [OF assms(1)] fl_mono [OF assms(2)] assms(3,4) by simp_all

lemma fl_sub_range:
  assumes "0 \<le> a" "a < 360" "0 \<le> b" "b < 360"
  shows "\<bar>fl (a - b)\<bar> \<le> 360"
proof -
  have "- 360 \<le> a - b" "a - b \<le> 360" using assms by simp_all
  then have "- 360 \<le> fl (a - b)" "fl (a - b) \<le> 360"
    by (rule fl_between; simp add: fl_neg)+
  then show ?thesis by simp
qed

lemma angle64_range:
  assumes "\<bar>s\<bar> \<le> 360"
  shows "0 \<le> \<bar>fl (js_rem (fl (s + 540)) 360 - 180)\<bar>"
    and "\<bar>fl (js_rem (fl (s + 540)) 360 - 180)\<bar> \<le> 180"
proof -
  let ?u = "fl (s + 540)"
  let ?z = "js_rem ?u 360 - 180"
  have "180 \<le> s + 540" "s + 540 \<le> 900" using assms by simp_all
  then have u: "180 \<le> ?u" "?u \<le> 900" by (rule fl_between; simp)+
  then have "0 \<le> ?u" by simp
  from js_rem_360_range [OF this] have "- 180 \<le> ?z" "?z \<le> 180" by simp_all
  then have "- 180 \<le> fl ?z" "fl ?z \<le> 180" by (rule fl_between; simp add: fl_neg)+
  then show "\<bar>fl ?z\<bar> \<le> 180" by simp
  show "0 \<le> \<bar>fl ?z\<bar>" by simp
qed

lemma angle64_near:
  assumes "\<bar>s\<bar> \<le> 360"
  shows "\<bar>\<bar>fl (js_rem (fl (s + 540)) 360 - 180)\<bar> - inlineDiff s 0\<bar>
           \<le> 1 / 2 ^ 44 + 1 / 2 ^ 46"
proof -
  let ?u = "fl (s + 540)"
  let ?z = "js_rem ?u 360 - 180"
  have "180 \<le> s + 540" "s + 540 \<le> 900" using assms by simp_all
  then have u: "180 \<le> ?u" "?u \<le> 900" by (rule fl_between; simp)+
  have "\<bar>s + 540\<bar> < 2 powi (9 + 1)" using assms by simp
  then have "\<bar>?u - (s + 540)\<bar> \<le> 2 powi (9 - 53)" by (rule fl_error_below)
  then have eu: "\<bar>?u - (s + 540)\<bar> \<le> 1 / 2 ^ 44" by simp
  have "0 \<le> ?u" using u by simp
  from js_rem_360_range [OF this] have "\<bar>?z\<bar> < 2 powi (7 + 1)" by simp
  then have "\<bar>fl ?z - ?z\<bar> \<le> 2 powi (7 - 53)" by (rule fl_error_below)
  then have ez: "\<bar>fl ?z - ?z\<bar> \<le> 1 / 2 ^ 46" by simp
  have tri: "\<bar>?z\<bar> = 180 - \<bar>\<bar>?u - 540\<bar> - 180\<bar>"
    using u by (rule triangle_wave)
  have D: "inlineDiff s 0 = 180 - \<bar>\<bar>s\<bar> - 180\<bar>"
    using assms by (simp add: inlineDiff_def)
  have "\<bar>\<bar>fl ?z\<bar> - \<bar>?z\<bar>\<bar> \<le> 1 / 2 ^ 46" using ez by linarith
  moreover have "\<bar>\<bar>?z\<bar> - inlineDiff s 0\<bar> \<le> 1 / 2 ^ 44"
    unfolding tri D using eu by linarith
  ultimately show ?thesis by linarith
qed

lemma inline64_near:
  assumes "\<bar>s\<bar> \<le> 360"
  shows "\<bar>min \<bar>s\<bar> (fl (360 - \<bar>s\<bar>)) - inlineDiff s 0\<bar> \<le> 1 / 2 ^ 45"
proof -
  have "\<bar>360 - \<bar>s\<bar>\<bar> < 2 powi (8 + 1)" using assms by simp
  then have "\<bar>fl (360 - \<bar>s\<bar>) - (360 - \<bar>s\<bar>)\<bar> \<le> 2 powi (8 - 53)" by (rule fl_error_below)
  then have "\<bar>fl (360 - \<bar>s\<bar>) - (360 - \<bar>s\<bar>)\<bar> \<le> 1 / 2 ^ 45" by simp
  then show ?thesis unfolding inlineDiff_def diff_zero by linarith
qed

lemma inlineDiff_even: "inlineDiff (- s) 0 = inlineDiff s 0"
  by (simp add: inlineDiff_def)


lemma js_rem_int:
  assumes "0 \<le> n"
  obtains m where "js_rem (of_int n) 360 - 180 = of_int m" "\<bar>m\<bar> \<le> 180"
proof -
  define m where "m = n - 360 * js_trunc (of_int n / 360) - 180"
  have eq: "js_rem (of_int n) 360 - 180 = of_int m"
    by (simp add: js_rem_def m_def)
  have "0 \<le> (of_int n :: real)" using assms by simp
  from js_rem_360_range [OF this]
  have "- 180 \<le> (of_int m :: real)" "(of_int m :: real) \<le> 180"
    unfolding eq [symmetric] by simp_all
  then have "- 180 \<le> m" "m \<le> 180" by linarith+
  then have "\<bar>m\<bar> \<le> 180" by simp
  with eq show thesis by (rule that)
qed

lemma fl_of_int_small: "\<bar>n\<bar> \<le> 1000 \<Longrightarrow> fl (of_int n) = of_int n"
  by (rule fl_int) simp

lemma angle64_int:
  assumes "0 \<le> i" "i < 360" "0 \<le> j" "j < 360"
  shows "angleDiffDeg64 (of_int i) (of_int j) = angleDiffDeg (of_int i) (of_int j)"
proof -
  have s: "fl (of_int i - of_int j) = of_int (i - j)"
    using assms fl_of_int_small [of "i - j"] by simp
  have u: "fl (of_int (i - j) + 540) = of_int (i - j + 540)"
    using assms fl_of_int_small [of "i - j + 540"] by simp
  obtain m where m: "js_rem (of_int (i - j + 540)) 360 - 180 = of_int m" "\<bar>m\<bar> \<le> 180"
    using assms by (elim js_rem_int [of "i - j + 540", rotated]) simp
  have z: "fl (of_int m) = of_int m"
    using m(2) by (intro fl_of_int_small) simp
  have "angleDiffDeg64 (of_int i) (of_int j) = \<bar>js_rem (of_int (i - j + 540)) 360 - 180\<bar>"
    unfolding angleDiffDeg64_def s u m(1) z ..
  also have "\<dots> = angleDiffDeg (of_int i) (of_int j)"
    by (simp add: angleDiffDeg_def)
  finally show ?thesis .
qed

lemma inline64_int:
  assumes "0 \<le> i" "i < 360" "0 \<le> j" "j < 360"
  shows "inlineDiff64 (of_int i) (of_int j) = inlineDiff (of_int i) (of_int j)"
proof -
  have s: "fl (of_int i - of_int j) = of_int (i - j)"
    using assms fl_of_int_small [of "i - j"] by simp
  have "360 - \<bar>of_int (i - j)\<bar> = (of_int (360 - \<bar>i - j\<bar>) :: real)" by simp
  moreover have "fl (of_int (360 - \<bar>i - j\<bar>)) = of_int (360 - \<bar>i - j\<bar>)"
    using assms by (intro fl_of_int_small) simp
  ultimately have t: "fl (360 - \<bar>of_int (i - j)\<bar>) = 360 - \<bar>of_int (i - j)\<bar>"
    by simp
  show ?thesis
    unfolding inlineDiff64_def s t by (simp add: inlineDiff_def)
qed

lemma near_combine:
  fixes x y d :: real
  assumes "\<bar>x - d\<bar> \<le> e1" "\<bar>y - d\<bar> \<le> e2" "e1 + e2 \<le> e"
  shows "\<bar>x - y\<bar> \<le> e"
  using assms by linarith

lemma angle64_near_diff:
  assumes "0 \<le> a" "a < 360" "0 \<le> b" "b < 360"
  shows "\<bar>angleDiffDeg64 a b - inlineDiff (fl (a - b)) 0\<bar> \<le> 1 / 2 ^ 44 + 1 / 2 ^ 46"
  unfolding angleDiffDeg64_def
  using fl_sub_range [OF assms] by (rule angle64_near)

lemmas fl_eval = fl_def expo_def ilog2.simps rne_def Let_def

lemma literals64:
  "fl 0.2 = 3602879701896397 / 2 ^ 54" "fl 0.1 = 3602879701896397 / 2 ^ 55"
  "fl 0.3 = 5404319552844595 / 2 ^ 54" "fl 0.6 = 5404319552844595 / 2 ^ 53"
  by (simp_all add: fl_eval)

lemma angle64_values:
  "angleDiffDeg64 (fl 0.2) 200 = 2818268204315443 / 2 ^ 44"
  "angleDiffDeg64 200 (fl 0.2) = 704567051078861 / 2 ^ 42"
  "angleDiffDeg64 (fl 0.1) (fl 0.3) = 879609302221 / 2 ^ 42"
  "inlineDiff64 (fl 0.1) (fl 0.3) = 7205759403792793 / 2 ^ 55"
  unfolding literals64 angleDiffDeg64_def inlineDiff64_def
  by (simp_all add: fl_eval js_rem_def js_trunc_def)

text \<open>
  Claim C9, as stated: for all bearings \<open>a\<close>, \<open>b\<close> in \<open>[0, 360)\<close>, \<open>angleDiffDeg\<close> is
  symmetric and its result lies in \<open>[0, 180]\<close>. On binary64 values the two orders round
  differently: for the bearings 0.2 and 200 the function returns 160.2 one way and
  160.20000000000005 the other.
\<close>

theorem angleDiffDeg64_asymmetric:
  "0 \<le> fl 0.2 \<and> fl 0.2 < 360 \<and> (0 :: real) \<le> 200 \<and> (200 :: real) < 360
   \<and> angleDiffDeg64 (fl 0.2) 200 = 2818268204315443 / 2 ^ 44
   \<and> angleDiffDeg64 200 (fl 0.2) = 704567051078861 / 2 ^ 42
   \<and> angleDiffDeg64 (fl 0.2) 200 \<noteq> angleDiffDeg64 200 (fl 0.2)"
  unfolding angle64_values unfolding literals64 by simp

text \<open>
  Claim C9, amended: for all bearings \<open>a\<close>, \<open>b\<close> in \<open>[0, 360)\<close>, the result of
  \<open>angleDiffDeg\<close> lies in the closed interval \<open>[0, 180]\<close>, and the results for the two
  orders of the arguments differ by at most \<open>2 ^ - 42\<close>; for integer bearings they are
  equal.
\<close>

theorem angleDiffDeg64_range_symmetry:
  assumes "0 \<le> a" "a < 360" "0 \<le> b" "b < 360"
  shows "0 \<le> angleDiffDeg64 a b \<and> angleDiffDeg64 a b \<le> 180
         \<and> \<bar>angleDiffDeg64 a b - angleDiffDeg64 b a\<bar> \<le> 1 / 2 ^ 42
         \<and> (0 \<le> i \<and> i < 360 \<and> 0 \<le> j \<and> j < 360 \<longrightarrow>
              angleDiffDeg64 (of_int i) (of_int j) = angleDiffDeg64 (of_int j) (of_int i))"
proof -
  have range: "0 \<le> angleDiffDeg64 a b" "angleDiffDeg64 a b \<le> 180"
    unfolding angleDiffDeg64_def
    using fl_sub_range [OF assms] by (rule angle64_range)+
  have ab: "\<bar>angleDiffDeg64 a b - inlineDiff (fl (a - b)) 0\<bar> \<le> 1 / 2 ^ 44 + 1 / 2 ^ 46"
    using assms by (rule angle64_near_diff)
  have "\<bar>angleDiffDeg64 b a - inlineDiff (fl (b - a)) 0\<bar> \<le> 1 / 2 ^ 44 + 1 / 2 ^ 46"
    using assms(3,4,1,2) by (rule angle64_near_diff)
  moreover have "fl (b - a) = - fl (a - b)"
    using fl_neg [of "a - b"] by simp
  ultimately have ba:
    "\<bar>angleDiffDeg64 b a - inlineDiff (fl (a - b)) 0\<bar> \<le> 1 / 2 ^ 44 + 1 / 2 ^ 46"
    by (simp only: inlineDiff_even)
  have near: "\<bar>angleDiffDeg64 a b - angleDiffDeg64 b a\<bar> \<le> 1 / 2 ^ 42"
    using ab ba by (rule near_combine) simp
  have ints: "angleDiffDeg64 (of_int i) (of_int j) = angleDiffDeg64 (of_int j) (of_int i)"
    if "0 \<le> i \<and> i < 360 \<and> 0 \<le> j \<and> j < 360"
  proof -
    have "angleDiffDeg (of_int i) (of_int j) = inlineDiff (of_int i) (of_int j)"
      using that by (intro angleDiffDeg_inline) simp_all
    moreover have "angleDiffDeg (of_int j) (of_int i) = inlineDiff (of_int j) (of_int i)"
      using that by (intro angleDiffDeg_inline) simp_all
    moreover have "inlineDiff (of_int i) (of_int j) = inlineDiff (of_int j) (of_int i)"
      by (simp add: inlineDiff_def abs_minus_commute)
    ultimately show ?thesis
      using that by (simp add: angle64_int)
  qed
  from range near ints show ?thesis by blast
qed

theorem angleDiffDeg64_range_symmetry_witness:
  "0 \<le> fl 0.2 \<and> fl 0.2 < 360 \<and> (0 :: real) \<le> 200 \<and> (200 :: real) < 360
   \<and> 0 \<le> angleDiffDeg64 (fl 0.2) 200 \<and> angleDiffDeg64 (fl 0.2) 200 \<le> 180
   \<and> \<bar>angleDiffDeg64 (fl 0.2) 200 - angleDiffDeg64 200 (fl 0.2)\<bar> \<le> 1 / 2 ^ 42
   \<and> angleDiffDeg64 (of_int 350) (of_int 10) = angleDiffDeg64 (of_int 10) (of_int 350)"
proof -
  have r: "0 \<le> fl 0.2" "fl 0.2 < 360" "(0 :: real) \<le> 200" "(200 :: real) < 360"
    unfolding literals64 by simp_all
  from angleDiffDeg64_range_symmetry [OF r, of 350 10] r show ?thesis by simp
qed

text \<open>
  Claim C10, as stated: for all angles \<open>a\<close>, \<open>b\<close> in \<open>[0, 360)\<close>, the circular difference
  of the shade module equals the formula the scorer has inline. On binary64 values they
  round differently: for 0.1 and 0.3 the shade module returns 0.20000000000004547 and the
  scorer's formula 0.19999999999999998.
\<close>

theorem angleDiffDeg64_differs_from_scorer:
  "0 \<le> fl 0.1 \<and> fl 0.1 < 360 \<and> 0 \<le> fl 0.3 \<and> fl 0.3 < 360
   \<and> angleDiffDeg64 (fl 0.1) (fl 0.3) = 879609302221 / 2 ^ 42
   \<and> inlineDiff64 (fl 0.1) (fl 0.3) = 7205759403792793 / 2 ^ 55
   \<and> angleDiffDeg64 (fl 0.1) (fl 0.3) \<noteq> inlineDiff64 (fl 0.1) (fl 0.3)"
  unfolding angle64_values unfolding literals64 by simp

text \<open>
  Claim C10, amended: for all angles \<open>a\<close>, \<open>b\<close> in \<open>[0, 360)\<close>, the circular difference
  of the shade module and the formula the scorer has inline,
  \<open>min \<bar>a - b\<bar> (360 - \<bar>a - b\<bar>)\<close>, differ by at most \<open>2 ^ - 43\<close>; for integer angles they
  are equal.
\<close>

theorem angleDiffDeg64_near_scorer:
  assumes "0 \<le> a" "a < 360" "0 \<le> b" "b < 360"
  shows "\<bar>angleDiffDeg64 a b - inlineDiff64 a b\<bar> \<le> 1 / 2 ^ 43
         \<and> (0 \<le> i \<and> i < 360 \<and> 0 \<le> j \<and> j < 360 \<longrightarrow>
              angleDiffDeg64 (of_int i) (of_int j) = inlineDiff64 (of_int i) (of_int j))"
proof -
  have ab: "\<bar>angleDiffDeg64 a b - inlineDiff (fl (a - b)) 0\<bar> \<le> 1 / 2 ^ 44 + 1 / 2 ^ 46"
    using assms by (rule angle64_near_diff)
  have "\<bar>inlineDiff64 a b - inlineDiff (fl (a - b)) 0\<bar> \<le> 1 / 2 ^ 45"
    unfolding inlineDiff64_def using fl_sub_range [OF assms] by (rule inline64_near)
  with ab have near: "\<bar>angleDiffDeg64 a b - inlineDiff64 a b\<bar> \<le> 1 / 2 ^ 43"
    by (rule near_combine) simp
  have ints: "angleDiffDeg64 (of_int i) (of_int j) = inlineDiff64 (of_int i) (of_int j)"
    if "0 \<le> i \<and> i < 360 \<and> 0 \<le> j \<and> j < 360"
  proof -
    have "angleDiffDeg (of_int i) (of_int j) = inlineDiff (of_int i) (of_int j)"
      using that by (intro angleDiffDeg_inline) simp_all
    then show ?thesis
      using that by (simp add: angle64_int inline64_int)
  qed
  from near ints show ?thesis by blast
qed

theorem angleDiffDeg64_near_scorer_witness:
  "0 \<le> fl 0.1 \<and> fl 0.1 < 360 \<and> 0 \<le> fl 0.3 \<and> fl 0.3 < 360
   \<and> \<bar>angleDiffDeg64 (fl 0.1) (fl 0.3) - inlineDiff64 (fl 0.1) (fl 0.3)\<bar> \<le> 1 / 2 ^ 43
   \<and> angleDiffDeg64 (of_int 10) (of_int 200) = inlineDiff64 (of_int 10) (of_int 200)"
proof -
  have r: "0 \<le> fl 0.1" "fl 0.1 < 360" "0 \<le> fl 0.3" "fl 0.3 < 360"
    unfolding literals64 by simp_all
  from angleDiffDeg64_near_scorer [OF r, of 10 200] r show ?thesis by simp
qed

subsection \<open>Solar position adapter\<close>

lemma RAD64_value: "RAD64 = 1007958012753983 / 2 ^ 44"
  by (simp add: RAD64_def Math_PI_def fl_eval)

lemma Math_PI_products:
  "fl (Math_PI * RAD64) = 180"
  "fl (Math_PI * 180) = 4974073419394997 / 2 ^ 43"
  "fl (fl (Math_PI * 180) / Math_PI) = 180"
  unfolding RAD64_value by (simp_all add: Math_PI_def fl_eval)


lemma Math_PI_bounds: "3 < Math_PI" "Math_PI < 4" "0 < Math_PI"
  by (simp_all add: Math_PI_def)

lemma RAD64_bounds: "0 < RAD64" "RAD64 < 57.3"
  unfolding RAD64_value by simp_all

lemma toDeg64_range:
  assumes "\<bar>r\<bar> \<le> Math_PI"
  shows "- 180 \<le> toDeg64 r" "toDeg64 r \<le> 180"
proof -
  have hi: "r * RAD64 \<le> Math_PI * RAD64"
    using assms RAD64_bounds(1) by (intro mult_right_mono) simp_all
  have "(- Math_PI) * RAD64 \<le> r * RAD64"
    using assms RAD64_bounds(1) by (intro mult_right_mono) simp_all
  then have lo: "- (Math_PI * RAD64) \<le> r * RAD64" by simp
  from fl_mono [OF hi] show "toDeg64 r \<le> 180"
    unfolding toDeg64_def Math_PI_products .
  from fl_mono [OF lo] show "- 180 \<le> toDeg64 r"
    unfolding toDeg64_def fl_neg Math_PI_products .
qed

lemma adapter64_range:
  assumes "- 180 \<le> t" "t \<le> 180"
  shows "0 \<le> js_rem (fl (fl (t + 180) + 360)) 360"
    and "js_rem (fl (fl (t + 180) + 360)) 360 < 360"
proof -
  have "0 \<le> t + 180" using assms by simp
  then have "0 \<le> fl (t + 180)" by (rule fl_nonneg)
  then have "0 \<le> fl (t + 180) + 360" by simp
  then have "0 \<le> fl (fl (t + 180) + 360)" by (rule fl_nonneg)
  then show "0 \<le> js_rem (fl (fl (t + 180) + 360)) 360"
    and "js_rem (fl (fl (t + 180) + 360)) 360 < 360"
    by (rule js_rem_360_range)+
qed

lemma inlineAzimuth64_range:
  "0 \<le> az + 180 \<Longrightarrow> 0 \<le> js_rem (fl (az + 180)) 360 \<and> js_rem (fl (az + 180)) 360 < 360"
  using js_rem_360_range [OF fl_nonneg] by simp

lemma inlineDeg64_range:
  assumes "\<bar>r\<bar> \<le> Math_PI"
  shows "- 180 \<le> fl (fl (r * 180) / Math_PI)" "fl (fl (r * 180) / Math_PI) \<le> 180"
proof -
  let ?P = "fl (Math_PI * 180)"
  have hi: "r * 180 \<le> Math_PI * 180" and lo: "- (Math_PI * 180) \<le> r * 180"
    using assms by simp_all
  have "fl (r * 180) / Math_PI \<le> ?P / Math_PI"
    using fl_mono [OF hi] Math_PI_bounds(3) by (intro divide_right_mono) simp_all
  from fl_mono [OF this] show "fl (fl (r * 180) / Math_PI) \<le> 180"
    unfolding Math_PI_products(3) .
  have "(- ?P) / Math_PI \<le> fl (r * 180) / Math_PI"
    using fl_mono [OF lo] Math_PI_bounds(3) unfolding fl_neg
    by (intro divide_right_mono) simp_all
  then have "- (?P / Math_PI) \<le> fl (r * 180) / Math_PI" by simp
  from fl_mono [OF this] show "- 180 \<le> fl (fl (r * 180) / Math_PI)"
    unfolding fl_neg Math_PI_products(3) .
qed

lemma azimuth64_ranges:
  assumes "\<bar>azimuth pos\<bar> \<le> Math_PI"
  shows "0 \<le> js_rem (fl (fl (toDeg64 (azimuth pos) + 180) + 360)) 360"
    and "js_rem (fl (fl (toDeg64 (azimuth pos) + 180) + 360)) 360 < 360"
    and "0 \<le> inlineAzimuth64 pos" and "inlineAzimuth64 pos < 360"
proof -
  from toDeg64_range [OF assms]
  show "0 \<le> js_rem (fl (fl (toDeg64 (azimuth pos) + 180) + 360)) 360"
    and "js_rem (fl (fl (toDeg64 (azimuth pos) + 180) + 360)) 360 < 360"
    by (rule adapter64_range)+
  from inlineDeg64_range [OF assms]
  have "0 \<le> fl (fl (azimuth pos * 180) / Math_PI) + 180" by simp
  from inlineAzimuth64_range [OF this]
  show "0 \<le> inlineAzimuth64 pos" and "inlineAzimuth64 pos < 360"
    by (simp_all add: inlineAzimuth64_def)
qed









subsection \<open>Exposure scorer\<close>

text \<open>The additive bands of the scorer, pulled out of the running score.\<close>

lemma band_sum:
  fixes s :: real
  shows "(if c1 then s + x else if c2 then s + y else s + z)
           = s + (if c1 then x else if c2 then y else z)"
  by simp

lemma band_diff:
  fixes s :: real
  shows "(if c1 then s - x else if c2 then s - y else s + z)
           = s + (if c1 then - x else if c2 then - y else z)"
  by simp

lemma band_street:
  fixes s :: real
  shows "(if c then (if n then s - x else if m then s - y else s) else s)
           = s + (if c then (if n then - x else if m then - y else 0) else 0)"
  by simp

lemma band_cloud:
  fixes s :: real
  shows "(case cf of Some c \<Rightarrow> s * (1 - 0.6 * c) | None \<Rightarrow> s)
           = s * (case cf of Some c \<Rightarrow> 1 - 0.6 * c | None \<Rightarrow> 1)"
  by (simp split: option.split)

lemma sunScore_bands:
  "sunScore getPosition a =
     (let pos = getPosition (date a) (lat a) (lon a);
          diff = inlineDiff (inlineAzimuth pos) (orientationDeg a);
          alt = inlineAltitude pos;
          base = (if diff < 45 then 55 else if diff < 90 then 35 else 10);
          altAdj = (if alt < 8 then - 30 else if alt < 15 then - 15 else 10);
          street = (if alt < 20
                    then (if streetWidth a = ''narrow'' then - 15
                          else if streetWidth a = ''medium'' then - 5
                          else 0)
                    else 0);
          mult = (case cloudFraction a of Some c \<Rightarrow> 1 - 0.6 * c | None \<Rightarrow> 1)
      in round (max 0 (min 100 ((base + altAdj + street) * mult))))"
  unfolding sunScore_def Let_def Math_round_eq round_clamp
    band_sum band_diff band_street band_cloud
  by (simp only: add_0_left add.assoc)


text \<open>
  Claim C3, as stated: with a cloud fraction of 0, an angular difference of 0, a solar altitude
  above 20 degrees and a wide street the score is 75. The scorer adds two bands only, 55 for
  the alignment and 10 for the altitude, and the street width adds nothing: the score is 65.
\<close>

theorem sunScore_max_band_counterexample:
  "cloudFraction \<lparr>lat = 48, lon = 2, orientationDeg = 180, streetWidth = ''wide'',
        date = 0, cloudFraction = Some 0\<rparr> = Some 0
   \<and> inlineDiff (inlineAzimuth (fixedPosition 0 (pi / 4) 0 48 2)) 180 = 0
   \<and> 20 < inlineAltitude (fixedPosition 0 (pi / 4) 0 48 2)
   \<and> sunScore (fixedPosition 0 (pi / 4))
        \<lparr>lat = 48, lon = 2, orientationDeg = 180, streetWidth = ''wide'',
         date = 0, cloudFraction = Some 0\<rparr> \<noteq> 75"
proof -
  have alt: "inlineAltitude (fixedPosition 0 (pi / 4) d la lo) = 45" for d la lo
    by (simp add: fixedPosition_def inlineAltitude_def)
  have az: "inlineAzimuth (fixedPosition 0 (pi / 4) d la lo) = 180" for d la lo
    by (simp add: fixedPosition_def inlineAzimuth_def js_rem_def js_trunc_def)
  have run: "sunScore (fixedPosition 0 (pi / 4))
        \<lparr>lat = 48, lon = 2, orientationDeg = 180, streetWidth = ''wide'',
         date = 0, cloudFraction = Some 0\<rparr> = 65"
    unfolding sunScore_def Let_def alt az
    by (simp add: inlineDiff_def Math_round_def)
  show ?thesis
    unfolding alt az run by (simp add: inlineDiff_def)
qed

text \<open>
  Claim C3, amended: for every input to \<open>sunScore\<close> in which the cloud fraction is 0, the
  angular difference between the solar azimuth and the orientation is 0, the solar altitude
  exceeds 20 degrees and the street is wide, the returned score is 65 (55 + 10).
\<close>

theorem sunScore_max_band:
  assumes "cloudFraction a = Some 0"
      and "inlineDiff (inlineAzimuth (getPosition (date a) (lat a) (lon a))) (orientationDeg a) = 0"
      and "20 < inlineAltitude (getPosition (date a) (lat a) (lon a))"
      and "streetWidth a = ''wide''"
  shows "sunScore getPosition a = 65"
  using assms unfolding sunScore_bands Let_def by simp

theorem sunScore_max_band_witness:
  "cloudFraction \<lparr>lat = 48, lon = 2, orientationDeg = 180, streetWidth = ''wide'',
        date = 0, cloudFraction = Some 0\<rparr> = Some 0
   \<and> inlineDiff (inlineAzimuth (fixedPosition 0 (pi / 4) 0 48 2)) 180 = 0
   \<and> 20 < inlineAltitude (fixedPosition 0 (pi / 4) 0 48 2)
   \<and> sunScore (fixedPosition 0 (pi / 4))
        \<lparr>lat = 48, lon = 2, orientationDeg = 180, streetWidth = ''wide'',
         date = 0, cloudFraction = Some 0\<rparr> = 65"
proof -
  have alt: "inlineAltitude (fixedPosition 0 (pi / 4) d la lo) = 45" for d la lo
    by (simp add: fixedPosition_def inlineAltitude_def)
  have az: "inlineAzimuth (fixedPosition 0 (pi / 4) d la lo) = 180" for d la lo
    by (simp add: fixedPosition_def inlineAzimuth_def js_rem_def js_trunc_def)
  have "sunScore (fixedPosition 0 (pi / 4))
        \<lparr>lat = 48, lon = 2, orientationDeg = 180, streetWidth = ''wide'',
         date = 0, cloudFraction = Some 0\<rparr> = 65"
    by (rule sunScore_max_band) (simp_all add: alt az inlineDiff_def)
  then show ?thesis
    by (simp add: alt az inlineDiff_def)
qed

subsection \<open>The scorer on binary64 values\<close>

lemma fl_neg_numeral [simp]:
  "(numeral k :: int) < 2 ^ 53 \<Longrightarrow> fl (- numeral k) = - numeral k"
  by (simp add: fl_neg)

lemma fl_int_add:
  assumes "\<bar>b\<bar> \<le> 200" "\<bar>t\<bar> \<le> 200"
  shows "fl (of_int b + of_int t) = of_int (b + t)"
  using assms fl_of_int_small [of "b + t"] by simp

lemma band64_first:
  "(if c1 then fl (0 + 55) else if c2 then fl (0 + 35) else fl (0 + 10))
     = of_int (if c1 then 55 else if c2 then 35 else 10)"
  by simp

lemma band64_second:
  assumes "\<bar>b\<bar> \<le> 200"
  shows "(if c1 then fl (of_int b - 30) else if c2 then fl (of_int b - 15)
          else fl (of_int b + 10))
     = of_int (b + (if c1 then - 30 else if c2 then - 15 else 10))"
  using fl_int_add [OF assms, of "- 30"] fl_int_add [OF assms, of "- 15"]
    fl_int_add [OF assms, of 10]
  by simp

lemma band64_third:
  assumes "\<bar>b\<bar> \<le> 200"
  shows "(if c then (if n then fl (of_int b - 15) else if m then fl (of_int b - 5)
                     else of_int b)
          else of_int b)
     = of_int (b + (if c then (if n then - 15 else if m then - 5 else 0) else 0))"
  using fl_int_add [OF assms, of "- 15"] fl_int_add [OF assms, of "- 5"]
  by simp

lemma sunScore64_bands: "sunScore64 getPosition a = sunScore_spec64 getPosition a"
proof -
  define pos where "pos = getPosition (date a) (lat a) (lon a)"
  define diff where "diff = inlineDiff64 (inlineAzimuth64 pos) (orientationDeg a)"
  define alt where "alt = inlineAltitude64 pos"
  define base :: int where "base = (if diff < 45 then 55 else if diff < 90 then 35 else 10)"
  define altAdj :: int where
    "altAdj = (if alt < 8 then - 30 else if alt < 15 then - 15 else 10)"
  define street :: int where
    "street = (if alt < 20
               then (if streetWidth a = ''narrow'' then - 15
                     else if streetWidth a = ''medium'' then - 5 else 0)
               else 0)"
  have b: "\<bar>base\<bar> \<le> 200" by (simp add: base_def)
  have bt: "\<bar>base + altAdj\<bar> \<le> 200" by (simp add: base_def altAdj_def)
  have s1: "(if diff < 45 then fl (0 + 55) else if diff < 90 then fl (0 + 35)
             else fl (0 + 10)) = of_int base"
    unfolding base_def by (rule band64_first)
  have s2: "(if alt < 8 then fl (of_int base - 30)
             else if alt < 15 then fl (of_int base - 15) else fl (of_int base + 10))
              = of_int (base + altAdj)"
    unfolding altAdj_def using b by (rule band64_second)
  have s3: "(if alt < 20
             then (if streetWidth a = ''narrow'' then fl (of_int (base + altAdj) - 15)
                   else if streetWidth a = ''medium'' then fl (of_int (base + altAdj) - 5)
                   else of_int (base + altAdj))
             else of_int (base + altAdj)) = of_int (base + altAdj + street)"
    unfolding street_def using bt by (rule band64_third)
  have code: "sunScore64 getPosition a
      = max 0 (min 100 (Math_round
          (case cloudFraction a of
             Some c \<Rightarrow> fl (of_int (base + altAdj + street) * fl (1 - fl (fl 0.6 * c)))
           | None \<Rightarrow> of_int (base + altAdj + street))))"
    unfolding sunScore64_def Let_def pos_def [symmetric] diff_def [symmetric]
      alt_def [symmetric] s1 s2 s3 ..
  have spec: "sunScore_spec64 getPosition a
      = round (max 0 (min 100
          (case cloudFraction a of
             Some c \<Rightarrow> fl (of_int (base + altAdj + street) * fl (1 - fl (fl 0.6 * c)))
           | None \<Rightarrow> of_int (base + altAdj + street))))"
    unfolding sunScore_spec64_def Let_def pos_def [symmetric] diff_def [symmetric]
      alt_def [symmetric] base_def [symmetric] altAdj_def [symmetric]
      street_def [symmetric] ..
  show ?thesis
    unfolding code spec Math_round_eq round_clamp ..
qed

lemma inlineDiff_lipschitz:
  "\<bar>inlineDiff s 0 - inlineDiff a b\<bar> \<le> \<bar>s - (a - b)\<bar>"
  unfolding inlineDiff_def diff_zero by linarith

lemma inlineDiff64_near_circular:
  assumes "0 \<le> a" "a < 360" "0 \<le> b" "b < 360"
  shows "\<bar>inlineDiff64 a b - circularDifference a b\<bar> \<le> 1 / 2 ^ 44"
proof -
  let ?s = "fl (a - b)"
  have "\<bar>a - b\<bar> < 2 powi (8 + 1)" using assms by simp
  then have "\<bar>?s - (a - b)\<bar> \<le> 2 powi (8 - 53)" by (rule fl_error_below)
  then have "\<bar>?s - (a - b)\<bar> \<le> 1 / 2 ^ 45" by simp
  with inlineDiff_lipschitz [of ?s a b]
  have e1: "\<bar>inlineDiff ?s 0 - inlineDiff a b\<bar> \<le> 1 / 2 ^ 45" by linarith
  have e2: "\<bar>inlineDiff64 a b - inlineDiff ?s 0\<bar> \<le> 1 / 2 ^ 45"
    unfolding inlineDiff64_def using fl_sub_range [OF assms] by (rule inline64_near)
  have "\<bar>inlineDiff64 a b - inlineDiff a b\<bar> \<le> 1 / 2 ^ 44"
  proof -
    have "\<bar>inlineDiff a b - inlineDiff ?s 0\<bar> \<le> 1 / 2 ^ 45" using e1 by linarith
    with e2 show ?thesis by (rule near_combine) simp
  qed
  then show ?thesis
    using inlineDiff_circular [OF assms] by simp
qed


lemma south_at_one_radian:
  "inlineAzimuth64 (fixedPosition 0 1 d la lo) = 180"
  "inlineAltitude64 (fixedPosition 0 1 d la lo) = 1007958012753983 / 2 ^ 44"
  "azimuthDeg (getSunAngles (fixedPosition 0 1) d la lo) = 180"
  "altitudeDeg (getSunAngles (fixedPosition 0 1) d la lo) = toDeg 1"
proof -
  show "inlineAzimuth64 (fixedPosition 0 1 d la lo) = 180"
    unfolding inlineAzimuth64_def fixedPosition_def
    by (simp add: js_rem_def js_trunc_def)
  show "inlineAltitude64 (fixedPosition 0 1 d la lo) = 1007958012753983 / 2 ^ 44"
    unfolding inlineAltitude64_def fixedPosition_def
    by (simp add: Math_PI_def fl_eval)
  show "azimuthDeg (getSunAngles (fixedPosition 0 1) d la lo) = 180"
    by (simp add: getSunAngles_def fixedPosition_def toDeg_def js_rem_def js_trunc_def)
  show "altitudeDeg (getSunAngles (fixedPosition 0 1) d la lo) = toDeg 1"
    by (simp add: getSunAngles_def fixedPosition_def)
qed

lemma toDeg_one: "\<not> toDeg 1 < 8" "\<not> toDeg 1 < 15" "\<not> toDeg 1 < 20"
proof -
  have "20 * pi \<le> 180" using pi_less_4 by simp
  then have "20 \<le> toDeg 1"
    by (simp add: toDeg_def RAD_def pos_le_divide_eq)
  then show "\<not> toDeg 1 < 8" "\<not> toDeg 1 < 15" "\<not> toDeg 1 < 20" by simp_all
qed

lemma circularDifference_values:
  "circularDifference 180 120 = 60" "circularDifference 180 720 = 180"
  by (simp_all add: circularDifference_def frac_def)

lemma inlineDiff64_values:
  "inlineDiff64 180 120 = 60" "inlineDiff64 180 720 = - 180"
  by (simp_all add: inlineDiff64_def)

lemma scorer_runs:
  "sunScore64 (fixedPosition 0 1)
     \<lparr>lat = 48, lon = 2, orientationDeg = 120, streetWidth = ''wide'',
      date = 0, cloudFraction = Some 0.5\<rparr> = 31"
  "sunScore_spec (fixedPosition 0 1)
     \<lparr>lat = 48, lon = 2, orientationDeg = 120, streetWidth = ''wide'',
      date = 0, cloudFraction = Some 0.5\<rparr> = 32"
  "sunScore64 (fixedPosition 0 1)
     \<lparr>lat = 48, lon = 2, orientationDeg = 720, streetWidth = ''wide'',
      date = 0, cloudFraction = None\<rparr> = 65"
  "sunScore_spec (fixedPosition 0 1)
     \<lparr>lat = 48, lon = 2, orientationDeg = 720, streetWidth = ''wide'',
      date = 0, cloudFraction = None\<rparr> = 20"
proof -
  show "sunScore64 (fixedPosition 0 1)
     \<lparr>lat = 48, lon = 2, orientationDeg = 120, streetWidth = ''wide'',
      date = 0, cloudFraction = Some 0.5\<rparr> = 31"
    unfolding sunScore64_def Let_def south_at_one_radian
    by (simp add: inlineDiff64_values Math_round_def fl_eval)
  show "sunScore_spec (fixedPosition 0 1)
     \<lparr>lat = 48, lon = 2, orientationDeg = 120, streetWidth = ''wide'',
      date = 0, cloudFraction = Some 0.5\<rparr> = 32"
    unfolding sunScore_spec_def Let_def south_at_one_radian
    by (simp add: circularDifference_values toDeg_one round_def)
  show "sunScore64 (fixedPosition 0 1)
     \<lparr>lat = 48, lon = 2, orientationDeg = 720, streetWidth = ''wide'',
      date = 0, cloudFraction = None\<rparr> = 65"
    unfolding sunScore64_def Let_def south_at_one_radian
    by (simp add: inlineDiff64_values Math_round_def)
  show "sunScore_spec (fixedPosition 0 1)
     \<lparr>lat = 48, lon = 2, orientationDeg = 720, streetWidth = ''wide'',
      date = 0, cloudFraction = None\<rparr> = 20"
    unfolding sunScore_spec_def Let_def south_at_one_radian
    by (simp add: circularDifference_values toDeg_one round_def)
qed


text \<open>
  Claim C2, as stated: for every venue, timestamp and cloud fraction, \<open>sunScore\<close> equals the
  reference scorer, in which \<open>diff\<close> is the minimal circular difference between the solar
  azimuth and the orientation and the running score is multiplied by
  \<open>1 - 0.6 * cloudFraction\<close>. Two runs with the sun due south, 1 radian above the horizon,
  and a wide street say otherwise. With an orientation of 120 and a cloud fraction of 0.5 the
  running score is 45; the binary64 product is 31.499999999999996, which rounds to 31,
  where the reference has 31.5, which rounds to 32. With an orientation of 720 and no cloud
  fraction the inline formula gives \<open>diff = - 180\<close> and the score 65, where the circular
  difference is 180 and the reference has 20.
\<close>

theorem sunScore64_differs_from_reference:
  "sunScore64 (fixedPosition 0 1)
     \<lparr>lat = 48, lon = 2, orientationDeg = 120, streetWidth = ''wide'',
      date = 0, cloudFraction = Some 0.5\<rparr> = 31
   \<and> sunScore_spec (fixedPosition 0 1)
     \<lparr>lat = 48, lon = 2, orientationDeg = 120, streetWidth = ''wide'',
      date = 0, cloudFraction = Some 0.5\<rparr> = 32
   \<and> sunScore64 (fixedPosition 0 1)
     \<lparr>lat = 48, lon = 2, orientationDeg = 720, streetWidth = ''wide'',
      date = 0, cloudFraction = None\<rparr> = 65
   \<and> sunScore_spec (fixedPosition 0 1)
     \<lparr>lat = 48, lon = 2, orientationDeg = 720, streetWidth = ''wide'',
      date = 0, cloudFraction = None\<rparr> = 20"
  unfolding scorer_runs by simp

text \<open>
  Claim C2, amended: for every venue, timestamp and cloud fraction, \<open>sunScore\<close> equals the
  reference scorer evaluated on binary64 values, \<open>sunScore_spec64\<close>: with \<open>diff\<close> the binary64
  value of \<open>min \<bar>az - orientationDeg\<bar> (360 - \<bar>az - orientationDeg\<bar>)\<close> for the scorer's own
  solar azimuth \<open>az\<close>, the base is 55 if \<open>diff < 45\<close>, 35 if \<open>diff < 90\<close>, else 10; then
  \<open>- 30\<close> if the altitude is under 8, \<open>- 15\<close> if under 15, else 10; then, only when the
  altitude is under 20, \<open>- 15\<close> for a narrow and \<open>- 5\<close> for a medium street; then the sum is
  multiplied, in binary64, by the binary64 value of \<open>1 - 0.6 * cloudFraction\<close> when the cloud
  fraction is a number, and left unchanged when it is missing; finally it is clamped to
  \<open>[0, 100]\<close> and rounded to the nearest integer. For an orientation in \<open>[0, 360)\<close> and an
  ephemeris azimuth between \<open>- Math.PI\<close> and \<open>Math.PI\<close>, \<open>diff\<close> is within \<open>2 ^ - 44\<close> of
  the minimal circular difference between \<open>az\<close> and the orientation.
\<close>

theorem sunScore64_refines_spec64:
  "sunScore64 getPosition a = sunScore_spec64 getPosition a
   \<and> (\<bar>azimuth (getPosition (date a) (lat a) (lon a))\<bar> \<le> Math_PI
        \<and> 0 \<le> orientationDeg a \<and> orientationDeg a < 360 \<longrightarrow>
      \<bar>inlineDiff64 (inlineAzimuth64 (getPosition (date a) (lat a) (lon a)))
            (orientationDeg a)
        - circularDifference (inlineAzimuth64 (getPosition (date a) (lat a) (lon a)))
            (orientationDeg a)\<bar> \<le> 1 / 2 ^ 44)"
proof (intro conjI impI)
  show "sunScore64 getPosition a = sunScore_spec64 getPosition a"
    by (rule sunScore64_bands)
next
  let ?pos = "getPosition (date a) (lat a) (lon a)"
  assume h: "\<bar>azimuth ?pos\<bar> \<le> Math_PI \<and> 0 \<le> orientationDeg a \<and> orientationDeg a < 360"
  then have "\<bar>azimuth ?pos\<bar> \<le> Math_PI" by simp
  from azimuth64_ranges(3,4) [OF this] h
  show "\<bar>inlineDiff64 (inlineAzimuth64 ?pos) (orientationDeg a)
          - circularDifference (inlineAzimuth64 ?pos) (orientationDeg a)\<bar> \<le> 1 / 2 ^ 44"
    by (intro inlineDiff64_near_circular) simp_all
qed

theorem sunScore64_refines_spec64_witness:
  "\<bar>azimuth (fixedPosition 0 1 0 48 2)\<bar> \<le> Math_PI
   \<and> sunScore64 (fixedPosition 0 1)
     \<lparr>lat = 48, lon = 2, orientationDeg = 120, streetWidth = ''wide'',
      date = 0, cloudFraction = Some 0.5\<rparr> = 31
   \<and> sunScore_spec64 (fixedPosition 0 1)
     \<lparr>lat = 48, lon = 2, orientationDeg = 120, streetWidth = ''wide'',
      date = 0, cloudFraction = Some 0.5\<rparr> = 31
   \<and> \<bar>inlineDiff64 (inlineAzimuth64 (fixedPosition 0 1 0 48 2)) 120
        - circularDifference (inlineAzimuth64 (fixedPosition 0 1 0 48 2)) 120\<bar>
      \<le> 1 / 2 ^ 44"
proof -
  have p: "\<bar>azimuth (fixedPosition 0 1 0 48 2)\<bar> \<le> Math_PI"
    by (simp add: fixedPosition_def Math_PI_def)
  note inst = sunScore64_refines_spec64 [of "fixedPosition 0 1"
      "\<lparr>lat = 48, lon = 2, orientationDeg = 120, streetWidth = ''wide'',
        date = 0, cloudFraction = Some 0.5\<rparr>"]
  from inst have eq: "sunScore_spec64 (fixedPosition 0 1)
     \<lparr>lat = 48, lon = 2, orientationDeg = 120, streetWidth = ''wide'',
      date = 0, cloudFraction = Some 0.5\<rparr> = 31"
    unfolding scorer_runs by simp
  from inst p have near: "\<bar>inlineDiff64 (inlineAzimuth64 (fixedPosition 0 1 0 48 2)) 120
        - circularDifference (inlineAzimuth64 (fixedPosition 0 1 0 48 2)) 120\<bar>
      \<le> 1 / 2 ^ 44"
    by simp
  from p eq near scorer_runs(1) show ?thesis by blast
qed

subsection \<open>Projection driver and score range\<close>


lemma clamp_range: "0 \<le> max 0 (min 100 (n::int))" "max 0 (min 100 (n::int)) \<le> 100"
  by simp_all



text \<open>
  Claim C8. For every input of the scoring pipeline (coordinates, orientation, street width,
  timestamp, cloud fraction present or missing, building list, whatever the solar altitude),
  the raw score of \<open>sunScore\<close> and the shade-attenuated scores of the handler, now and at
  every forecast offset, are integers between 0 and 100. The functions are total: the source
  has no \<^verbatim>\<open>throw\<close> on these paths and the model no error value.
\<close>

theorem scores_in_range:
  "0 \<le> sunScore getPosition a \<and> sunScore getPosition a \<le> 100
   \<and> 0 \<le> placeScore getPosition p buildings cf now
   \<and> placeScore getPosition p buildings cf now \<le> 100
   \<and> 0 \<le> score (forecastEntry getPosition p buildings cf now mins)
   \<and> score (forecastEntry getPosition p buildings cf now mins) \<le> 100"
  unfolding sunScore_def placeScore_def forecastEntry_def Let_def
  by (simp only: clamp_range forecast_point.simps simp_thms)

subsection \<open>Shadow evaluator\<close>

lemma shadeStep_locals:
  "shadeStep terrace (js_rem (azimuthDeg sun + 180) 360) (altitudeDeg sun) opts best b =
     (if loop_d terrace b > maxDist opts then best
      else if loop_delta terrace sun b > azTolerance opts then best
      else if loop_elev terrace b \<ge> altitudeDeg sun
              \<and> loop_conf terrace sun opts b > confidence best
           then \<lparr>shaded = True, confidence = loop_conf terrace sun opts b, culprit = Some b\<rparr>
           else best)"
  unfolding shadeStep_def loop_d_def loop_delta_def loop_elev_def loop_conf_def Let_def
  by simp

lemma shadeStep_filtered:
  assumes "loop_d terrace b > maxDist opts \<or> loop_delta terrace sun b > azTolerance opts"
  shows "shadeStep terrace (js_rem (azimuthDeg sun + 180) 360) (altitudeDeg sun) opts best b
           = best"
  using assms unfolding shadeStep_locals by auto

lemma shadeLoop_append:
  "shadeLoop terrace az alt opts best (xs @ ys)
     = shadeLoop terrace az alt opts (shadeLoop terrace az alt opts best xs) ys"
  by (induction xs arbitrary: best) simp_all

lemma isShaded_loop:
  "isShadedByBuildings terrace sun buildings opts =
     shadeLoop terrace (js_rem (azimuthDeg sun + 180) 360) (altitudeDeg sun) opts
       \<lparr>shaded = False, confidence = 0, culprit = None\<rparr> buildings"
  by (simp add: isShadedByBuildings_def Let_def)

lemma best_inv_step:
  assumes "best_inv terrace sun opts best"
  shows "best_inv terrace sun opts
           (shadeStep terrace (js_rem (azimuthDeg sun + 180) 360) (altitudeDeg sun) opts best b)"
proof -
  have nonneg: "0 \<le> confidence best"
    using assms by (auto simp: best_inv_def split: option.splits)
  show ?thesis
    unfolding shadeStep_locals using assms nonneg
    by (auto simp: best_inv_def split: option.splits)
qed

lemma best_inv_loop:
  assumes "best_inv terrace sun opts best"
  shows "best_inv terrace sun opts
           (shadeLoop terrace (js_rem (azimuthDeg sun + 180) 360) (altitudeDeg sun) opts best bs)"
  using assms by (induction bs arbitrary: best) (simp_all add: best_inv_step)

lemma best_inv_result: "best_inv terrace sun opts (isShadedByBuildings terrace sun bs opts)"
  unfolding isShaded_loop by (rule best_inv_loop) (simp add: best_inv_def)

subsection \<open>The concrete street\<close>

lemma distanceMeters_meridian:
  "distanceMeters la1 lo la2 lo = \<bar>la2 - la1\<bar> * 111132"
  by (simp add: distanceMeters_def Math_hypot_def Let_def abs_mult)

lemma toRad_eq: "toRad x = x * pi / 180"
  by (simp add: toRad_def RAD_def)

lemma bearingDeg_north:
  assumes "la1 < la2" "la2 < la1 + 180"
  shows "bearingDeg la1 lo la2 lo = 0"
proof -
  let ?x = "cos (toRad la1) * sin (toRad la2) - sin (toRad la1) * cos (toRad la2)"
  have "?x = sin (toRad la2 - toRad la1)"
    by (simp add: sin_diff)
  also have "toRad la2 - toRad la1 = (la2 - la1) * pi / 180"
    by (simp add: toRad_eq algebra_simps diff_divide_distrib)
  finally have x: "?x = sin ((la2 - la1) * pi / 180)" .
  have "0 < (la2 - la1) * pi / 180"
    using assms by simp
  moreover have "(la2 - la1) * pi / 180 < pi"
  proof -
    have "(la2 - la1) * pi < 180 * pi"
      using assms by (intro mult_strict_right_mono) simp_all
    then show ?thesis by simp
  qed
  ultimately have pos: "0 < ?x"
    unfolding x by (rule sin_gt_zero)
  then have "Math_atan2 0 ?x = 0"
    by (simp add: Math_atan2_def)
  then show ?thesis
    using js_rem_360_1 [of 360]
    by (simp add: bearingDeg_def Let_def toDeg_def)
qed

lemma ex_d: "loop_d exTerrace (exBuilding la h) = \<bar>la - 48\<bar> * 111132"
  by (simp add: loop_d_def exTerrace_def exBuilding_def distanceMeters_meridian)

lemma ex_delta:
  assumes "48 < la" "la < 228"
  shows "loop_delta exTerrace (exSun az alt) (exBuilding la h)
           = angleDiffDeg 0 (js_rem (az + 180) 360)"
proof -
  have "bearingDeg 48 2 la 2 = 0"
    using assms by (intro bearingDeg_north) simp_all
  then show ?thesis
    by (simp add: loop_delta_def exTerrace_def exBuilding_def exSun_def)
qed

lemma ex_height: "height_m (exBuilding la h) = h"
  by (simp add: exBuilding_def)

lemma ex_elev_flat:
  assumes "la \<noteq> 48"
  shows "loop_elev exTerrace (exBuilding la 0) = 0"
  using assms by (simp add: loop_elev_def ex_d ex_height or_zero_def Math_atan2_def toDeg_def)

lemma ex_elev_diagonal:
  assumes "la \<noteq> 48" "h = \<bar>la - 48\<bar> * 111132"
  shows "loop_elev exTerrace (exBuilding la h) = 45"
proof -
  have "0 < h" using assms by simp
  then have quarter: "Math_atan2 (or_zero h) h = pi / 4"
    by (simp add: Math_atan2_def or_zero_def arctan_one)
  have "loop_elev exTerrace (exBuilding la h) = toDeg (Math_atan2 (or_zero h) h)"
    using assms(2) by (simp add: loop_elev_def ex_d ex_height)
  also have "\<dots> = 45"
    unfolding quarter by (simp add: toDeg_def RAD_def)
  finally show ?thesis .
qed

lemma ex_values:
  "loop_d exTerrace (exBuilding 48.0005 h) = 55.566"
  "loop_d exTerrace (exBuilding 49 h) = 111132"
  "loop_delta exTerrace (exSun 180 alt) (exBuilding 48.0005 h) = 0"
  "loop_delta exTerrace (exSun 205 alt) (exBuilding 48.0005 h) = 25"
  "loop_elev exTerrace (exBuilding 48.0005 0) = 0"
  "loop_elev exTerrace (exBuilding 48.0005 55.566) = 45"
proof -
  show "loop_d exTerrace (exBuilding 48.0005 h) = 55.566"
    by (simp add: ex_d)
  show "loop_d exTerrace (exBuilding 49 h) = 111132"
    by (simp add: ex_d)
  show "loop_delta exTerrace (exSun 180 alt) (exBuilding 48.0005 h) = 0"
    by (simp add: ex_delta angleDiffDeg_def js_rem_def js_trunc_def)
  show "loop_delta exTerrace (exSun 205 alt) (exBuilding 48.0005 h) = 25"
    by (simp add: ex_delta angleDiffDeg_def js_rem_def js_trunc_def)
  show "loop_elev exTerrace (exBuilding 48.0005 0) = 0"
    by (simp add: ex_elev_flat)
  show "loop_elev exTerrace (exBuilding 48.0005 55.566) = 45"
    by (rule ex_elev_diagonal) simp_all
qed

subsection \<open>The confidence of a candidate\<close>

lemma loop_conf_nonneg:
  assumes "loop_delta t sun b \<le> azTolerance opts" "0 < azTolerance opts"
      and "altitudeDeg sun \<le> loop_elev t b"
  shows "0 \<le> loop_conf t sun opts b"
proof -
  have "loop_delta t sun b / azTolerance opts \<le> 1"
    using assms(1,2) by simp
  then have "0 \<le> ((loop_elev t b - altitudeDeg sun) / 10)
                    * (1 - loop_delta t sun b / azTolerance opts)"
    using assms(3) by (intro mult_nonneg_nonneg) simp_all
  then show ?thesis
    by (simp add: loop_conf_def)
qed

lemma loop_conf_pos_iff:
  assumes "loop_delta t sun b \<le> azTolerance opts" "0 < azTolerance opts"
      and "altitudeDeg sun \<le> loop_elev t b"
  shows "0 < loop_conf t sun opts b
           \<longleftrightarrow> altitudeDeg sun < loop_elev t b \<and> loop_delta t sun b < azTolerance opts"
proof -
  let ?m = "(loop_elev t b - altitudeDeg sun) / 10"
  let ?k = "1 - loop_delta t sun b / azTolerance opts"
  have m: "0 \<le> ?m" using assms(3) by simp
  have k: "0 \<le> ?k" using assms(1,2) by simp
  have "0 < loop_conf t sun opts b \<longleftrightarrow> 0 < ?m * ?k"
    by (simp add: loop_conf_def)
  also have "\<dots> \<longleftrightarrow> 0 < ?m \<and> 0 < ?k"
    using m k by (auto simp: zero_less_mult_iff)
  also have "0 < ?m \<longleftrightarrow> altitudeDeg sun < loop_elev t b"
    by simp
  also have "0 < ?k \<longleftrightarrow> loop_delta t sun b < azTolerance opts"
    using assms(2) by simp
  finally show ?thesis .
qed

lemma isShaded_single:
  "isShadedByBuildings t sun [b] opts =
     (if loop_d t b \<le> maxDist opts \<and> loop_delta t sun b \<le> azTolerance opts
         \<and> altitudeDeg sun \<le> loop_elev t b \<and> 0 < loop_conf t sun opts b
      then \<lparr>shaded = True, confidence = loop_conf t sun opts b, culprit = Some b\<rparr>
      else \<lparr>shaded = False, confidence = 0, culprit = None\<rparr>)"
  unfolding isShaded_loop shadeLoop.simps shadeStep_locals
  by (simp add: not_less)

text \<open>
  Claim C4. A building contributes to the result of \<open>isShadedByBuildings\<close> only if its planar
  distance to the terrace is at most \<open>maxDist\<close> (80 m by default) and the angular difference
  between its bearing and the direction \<open>(azimuthDeg + 180) mod 360\<close> is at most
  \<open>azTolerance\<close> (25 degrees by default): a building farther away, or farther off that
  direction, can be removed from the list without changing the returned flag, confidence or
  culprit, whatever its height, and a returned culprit has passed both filters.
\<close>

theorem filtered_building_ignored:
  "(maxDist opts < loop_d t b \<or> azTolerance opts < loop_delta t sun b \<longrightarrow>
      isShadedByBuildings t sun (bs1 @ b # bs2) opts
        = isShadedByBuildings t sun (bs1 @ bs2) opts)
   \<and> (culprit (isShadedByBuildings t sun bs opts) = Some c \<longrightarrow>
      loop_d t c \<le> maxDist opts \<and> loop_delta t sun c \<le> azTolerance opts)"
proof (intro conjI impI)
  assume "maxDist opts < loop_d t b \<or> azTolerance opts < loop_delta t sun b"
  then have "shadeStep t (js_rem (azimuthDeg sun + 180) 360) (altitudeDeg sun) opts best b
               = best" for best
    by (rule shadeStep_filtered)
  then show "isShadedByBuildings t sun (bs1 @ b # bs2) opts
               = isShadedByBuildings t sun (bs1 @ bs2) opts"
    by (simp add: isShaded_loop shadeLoop_append)
next
  assume c: "culprit (isShadedByBuildings t sun bs opts) = Some c"
  have "best_inv t sun opts (isShadedByBuildings t sun bs opts)"
    by (rule best_inv_result)
  with c show "loop_d t c \<le> maxDist opts" "loop_delta t sun c \<le> azTolerance opts"
    by (simp_all add: best_inv_def)
qed

lemma ex_shaded:
  "isShadedByBuildings exTerrace (exSun 180 30) [exBuilding 48.0005 55.566] defaultOpts
     = \<lparr>shaded = True, confidence = 1, culprit = Some (exBuilding 48.0005 55.566)\<rparr>"
  unfolding isShaded_single loop_conf_def ex_values
  by (simp add: defaultOpts_def exSun_def)

theorem filtered_building_ignored_witness:
  "maxDist defaultOpts < loop_d exTerrace (exBuilding 49 1000)
   \<and> isShadedByBuildings exTerrace (exSun 180 30)
        [exBuilding 49 1000, exBuilding 48.0005 55.566] defaultOpts
      = isShadedByBuildings exTerrace (exSun 180 30) [exBuilding 48.0005 55.566] defaultOpts
   \<and> culprit (isShadedByBuildings exTerrace (exSun 180 30)
        [exBuilding 49 1000, exBuilding 48.0005 55.566] defaultOpts)
      = Some (exBuilding 48.0005 55.566)
   \<and> loop_d exTerrace (exBuilding 48.0005 55.566) \<le> maxDist defaultOpts
   \<and> loop_delta exTerrace (exSun 180 30) (exBuilding 48.0005 55.566)
      \<le> azTolerance defaultOpts"
proof -
  have far: "maxDist defaultOpts < loop_d exTerrace (exBuilding 49 1000)"
    by (simp add: ex_values defaultOpts_def)
  note inst = filtered_building_ignored [of defaultOpts exTerrace "exBuilding 49 1000"
      "exSun 180 30" "[]" "[exBuilding 48.0005 55.566]"
      "[exBuilding 49 1000, exBuilding 48.0005 55.566]" "exBuilding 48.0005 55.566"]
  from inst far have same: "isShadedByBuildings exTerrace (exSun 180 30)
        [exBuilding 49 1000, exBuilding 48.0005 55.566] defaultOpts
      = isShadedByBuildings exTerrace (exSun 180 30) [exBuilding 48.0005 55.566] defaultOpts"
    by simp
  have cul: "culprit (isShadedByBuildings exTerrace (exSun 180 30)
        [exBuilding 49 1000, exBuilding 48.0005 55.566] defaultOpts)
      = Some (exBuilding 48.0005 55.566)"
    unfolding same ex_shaded by simp
  from inst cul have "loop_d exTerrace (exBuilding 48.0005 55.566) \<le> maxDist defaultOpts
      \<and> loop_delta exTerrace (exSun 180 30) (exBuilding 48.0005 55.566)
          \<le> azTolerance defaultOpts"
    by blast
  with far same cul show ?thesis by blast
qed

lemma shadeLoop_shaded_iff:
  assumes "0 < azTolerance opts" and "best_inv t sun opts best"
  shows "shaded (shadeLoop t (js_rem (azimuthDeg sun + 180) 360) (altitudeDeg sun) opts best bs)
           \<longleftrightarrow> shaded best
               \<or> (\<exists>c \<in> set bs. loop_d t c \<le> maxDist opts
                     \<and> loop_delta t sun c < azTolerance opts
                     \<and> altitudeDeg sun < loop_elev t c)"
  using assms(2)
proof (induction bs arbitrary: best)
  case Nil
  then show ?case by simp
next
  case (Cons b bs)
  let ?step = "shadeStep t (js_rem (azimuthDeg sun + 180) 360) (altitudeDeg sun) opts best b"
  have inv: "best_inv t sun opts ?step"
    using Cons.prems by (rule best_inv_step)
  have best: "0 \<le> confidence best" "shaded best \<longleftrightarrow> 0 < confidence best"
    using Cons.prems by (auto simp: best_inv_def split: option.splits)
  have step: "shaded ?step \<longleftrightarrow> shaded best
                \<or> (loop_d t b \<le> maxDist opts \<and> loop_delta t sun b < azTolerance opts
                    \<and> altitudeDeg sun < loop_elev t b)"
  proof (cases "loop_d t b \<le> maxDist opts \<and> loop_delta t sun b \<le> azTolerance opts
                 \<and> altitudeDeg sun \<le> loop_elev t b")
    case True
    then have pos: "0 < loop_conf t sun opts b
        \<longleftrightarrow> altitudeDeg sun < loop_elev t b \<and> loop_delta t sun b < azTolerance opts"
      using assms(1) by (intro loop_conf_pos_iff) simp_all
    show ?thesis
      unfolding shadeStep_locals using True pos best by auto
  next
    case False
    then show ?thesis
      unfolding shadeStep_locals by auto
  qed
  show ?case
    using Cons.IH [OF inv] step by auto
qed

text \<open>
  Claim C5, as stated: a candidate that passes both filters shades the terrace, and is the
  reported culprit, if and only if its apparent elevation is at least the solar altitude,
  the case of equality included. Two runs on one building, 55.566 m due north of the
  terrace, say otherwise. With a height of 0 and the sun on the horizon, in line with the
  building, the elevation equals the altitude. With a height of 55.566 m, the sun at 30
  degrees and 25 degrees off the line, the elevation of 45 degrees exceeds the altitude. In
  both the confidence is 0, which is not greater than the initial confidence 0, and the
  result is the initial one: not shaded, no culprit.
\<close>

theorem occlusion_boundary_counterexample:
  "loop_d exTerrace (exBuilding 48.0005 0) \<le> maxDist defaultOpts
   \<and> loop_delta exTerrace (exSun 180 0) (exBuilding 48.0005 0) \<le> azTolerance defaultOpts
   \<and> altitudeDeg (exSun 180 0) \<le> loop_elev exTerrace (exBuilding 48.0005 0)
   \<and> isShadedByBuildings exTerrace (exSun 180 0) [exBuilding 48.0005 0] defaultOpts
      = \<lparr>shaded = False, confidence = 0, culprit = None\<rparr>
   \<and> loop_d exTerrace (exBuilding 48.0005 55.566) \<le> maxDist defaultOpts
   \<and> loop_delta exTerrace (exSun 205 30) (exBuilding 48.0005 55.566)
      \<le> azTolerance defaultOpts
   \<and> altitudeDeg (exSun 205 30) < loop_elev exTerrace (exBuilding 48.0005 55.566)
   \<and> isShadedByBuildings exTerrace (exSun 205 30) [exBuilding 48.0005 55.566] defaultOpts
      = \<lparr>shaded = False, confidence = 0, culprit = None\<rparr>"
  unfolding isShaded_single loop_conf_def ex_values
  by (simp add: defaultOpts_def exSun_def)

text \<open>
  Claim C5, amended: for a positive tolerance, a candidate that passes both filters shades
  the terrace, and is the reported culprit, if and only if its apparent elevation is
  strictly greater than the solar altitude and its angular offset strictly smaller than the
  tolerance, that is, if and only if its confidence is positive; otherwise the result is
  the initial one. Over a list, the terrace is shaded if and only if some building of the
  list within the distance is strictly higher than the sun and strictly inside the
  tolerance.
\<close>

theorem occlusion_strict:
  assumes "0 < azTolerance opts"
  shows "(loop_d t b \<le> maxDist opts \<and> loop_delta t sun b \<le> azTolerance opts \<longrightarrow>
            isShadedByBuildings t sun [b] opts
              = (if altitudeDeg sun < loop_elev t b \<and> loop_delta t sun b < azTolerance opts
                 then \<lparr>shaded = True, confidence = loop_conf t sun opts b, culprit = Some b\<rparr>
                 else \<lparr>shaded = False, confidence = 0, culprit = None\<rparr>))
         \<and> (shaded (isShadedByBuildings t sun bs opts)
              \<longleftrightarrow> (\<exists>c \<in> set bs. loop_d t c \<le> maxDist opts
                     \<and> loop_delta t sun c < azTolerance opts
                     \<and> altitudeDeg sun < loop_elev t c))"
proof (intro conjI impI)
  assume cand: "loop_d t b \<le> maxDist opts \<and> loop_delta t sun b \<le> azTolerance opts"
  show "isShadedByBuildings t sun [b] opts
          = (if altitudeDeg sun < loop_elev t b \<and> loop_delta t sun b < azTolerance opts
             then \<lparr>shaded = True, confidence = loop_conf t sun opts b, culprit = Some b\<rparr>
             else \<lparr>shaded = False, confidence = 0, culprit = None\<rparr>)"
  proof (cases "altitudeDeg sun \<le> loop_elev t b")
    case True
    with cand assms have "0 < loop_conf t sun opts b
        \<longleftrightarrow> altitudeDeg sun < loop_elev t b \<and> loop_delta t sun b < azTolerance opts"
      by (intro loop_conf_pos_iff) simp_all
    with cand True show ?thesis
      unfolding isShaded_single by auto
  next
    case False
    then show ?thesis
      unfolding isShaded_single by auto
  qed
next
  have "best_inv t sun opts \<lparr>shaded = False, confidence = 0, culprit = None\<rparr>"
    by (simp add: best_inv_def)
  from shadeLoop_shaded_iff [OF assms this, of bs]
  show "shaded (isShadedByBuildings t sun bs opts)
          \<longleftrightarrow> (\<exists>c \<in> set bs. loop_d t c \<le> maxDist opts
                 \<and> loop_delta t sun c < azTolerance opts
                 \<and> altitudeDeg sun < loop_elev t c)"
    by (simp add: isShaded_loop)
qed

theorem occlusion_strict_witness:
  "0 < azTolerance defaultOpts
   \<and> loop_d exTerrace (exBuilding 48.0005 55.566) \<le> maxDist defaultOpts
   \<and> loop_delta exTerrace (exSun 180 30) (exBuilding 48.0005 55.566)
      < azTolerance defaultOpts
   \<and> altitudeDeg (exSun 180 30) < loop_elev exTerrace (exBuilding 48.0005 55.566)
   \<and> isShadedByBuildings exTerrace (exSun 180 30) [exBuilding 48.0005 55.566] defaultOpts
      = \<lparr>shaded = True, confidence = 1, culprit = Some (exBuilding 48.0005 55.566)\<rparr>
   \<and> shaded (isShadedByBuildings exTerrace (exSun 180 30)
        [exBuilding 49 1000, exBuilding 48.0005 55.566] defaultOpts)"
proof -
  have tol: "0 < azTolerance defaultOpts"
    by (simp add: defaultOpts_def)
  have d: "loop_d exTerrace (exBuilding 48.0005 55.566) \<le> maxDist defaultOpts"
    unfolding ex_values by (simp add: defaultOpts_def)
  have delta: "loop_delta exTerrace (exSun 180 30) (exBuilding 48.0005 55.566)
      < azTolerance defaultOpts"
    unfolding ex_values by (simp add: defaultOpts_def)
  have elev: "altitudeDeg (exSun 180 30) < loop_elev exTerrace (exBuilding 48.0005 55.566)"
    unfolding ex_values by (simp add: exSun_def)
  have conf: "loop_conf exTerrace (exSun 180 30) defaultOpts (exBuilding 48.0005 55.566) = 1"
    unfolding loop_conf_def ex_values by (simp add: defaultOpts_def exSun_def)
  note inst = occlusion_strict [OF tol, of exTerrace "exBuilding 48.0005 55.566"
      "exSun 180 30" "[exBuilding 49 1000, exBuilding 48.0005 55.566]"]
  from inst d delta elev conf
  have one: "isShadedByBuildings exTerrace (exSun 180 30) [exBuilding 48.0005 55.566]
      defaultOpts
      = \<lparr>shaded = True, confidence = 1, culprit = Some (exBuilding 48.0005 55.566)\<rparr>"
    by simp
  from inst d delta elev
  have many: "shaded (isShadedByBuildings exTerrace (exSun 180 30)
        [exBuilding 49 1000, exBuilding 48.0005 55.566] defaultOpts)"
    by simp
  from tol d delta elev one many show ?thesis by blast
qed

lemma shadeStep_confidence:
  assumes "loop_d t b \<le> maxDist opts" "loop_delta t sun b \<le> azTolerance opts"
      and "altitudeDeg sun \<le> loop_elev t b"
  shows "confidence (shadeStep t (js_rem (azimuthDeg sun + 180) 360) (altitudeDeg sun)
                       opts best b)
           = max (confidence best) (loop_conf t sun opts b)"
  unfolding shadeStep_locals using assms by (simp add: max_def)

text \<open>
  Claim C6. For a candidate that passes both filters and rises at least as high as the sun
  (positive tolerance), the confidence the evaluator computes is
  \<open>min 1 (((elev - alt) / 10) * (1 - delta / azTolerance))\<close>: it is the confidence reported
  for the building alone, and each pass of the loop keeps the greater of it and the running
  confidence. At an offset equal to the tolerance the reported confidence is 0, and at an
  offset of 0 with an elevation margin of 10 degrees or more it is 1.
\<close>

theorem confidence_formula:
  assumes "loop_d t b \<le> maxDist opts" and "loop_delta t sun b \<le> azTolerance opts"
      and "altitudeDeg sun \<le> loop_elev t b" and "0 < azTolerance opts"
  shows "confidence (isShadedByBuildings t sun [b] opts)
           = min 1 (((loop_elev t b - altitudeDeg sun) / 10)
                    * (1 - loop_delta t sun b / azTolerance opts))
         \<and> confidence (shadeStep t (js_rem (azimuthDeg sun + 180) 360) (altitudeDeg sun)
                          opts best b)
           = max (confidence best)
               (min 1 (((loop_elev t b - altitudeDeg sun) / 10)
                       * (1 - loop_delta t sun b / azTolerance opts)))
         \<and> (loop_delta t sun b = azTolerance opts \<longrightarrow>
               confidence (isShadedByBuildings t sun [b] opts) = 0)
         \<and> (loop_delta t sun b = 0 \<and> 10 \<le> loop_elev t b - altitudeDeg sun \<longrightarrow>
               confidence (isShadedByBuildings t sun [b] opts) = 1)"
proof -
  have nonneg: "0 \<le> loop_conf t sun opts b"
    using assms(2,4,3) by (rule loop_conf_nonneg)
  have single: "confidence (isShadedByBuildings t sun [b] opts) = loop_conf t sun opts b"
    unfolding isShaded_single using assms(1-3) nonneg by auto
  have step: "confidence (shadeStep t (js_rem (azimuthDeg sun + 180) 360) (altitudeDeg sun)
                          opts best b)
                = max (confidence best) (loop_conf t sun opts b)"
    using assms(1-3) by (rule shadeStep_confidence)
  have edge: "loop_conf t sun opts b = 0" if "loop_delta t sun b = azTolerance opts"
    using that assms(4) by (simp add: loop_conf_def)
  have full: "loop_conf t sun opts b = 1"
    if "loop_delta t sun b = 0 \<and> 10 \<le> loop_elev t b - altitudeDeg sun"
    using that by (simp add: loop_conf_def)
  show ?thesis
    unfolding single step using edge full by (simp add: loop_conf_def)
qed

theorem confidence_formula_witness:
  "loop_d exTerrace (exBuilding 48.0005 55.566) \<le> maxDist defaultOpts
   \<and> 0 < azTolerance defaultOpts
   \<and> altitudeDeg (exSun 205 30) \<le> loop_elev exTerrace (exBuilding 48.0005 55.566)
   \<and> loop_delta exTerrace (exSun 205 30) (exBuilding 48.0005 55.566)
      = azTolerance defaultOpts
   \<and> confidence (isShadedByBuildings exTerrace (exSun 205 30)
        [exBuilding 48.0005 55.566] defaultOpts) = 0
   \<and> altitudeDeg (exSun 180 30) \<le> loop_elev exTerrace (exBuilding 48.0005 55.566)
   \<and> loop_delta exTerrace (exSun 180 30) (exBuilding 48.0005 55.566) = 0
   \<and> 10 \<le> loop_elev exTerrace (exBuilding 48.0005 55.566) - altitudeDeg (exSun 180 30)
   \<and> confidence (isShadedByBuildings exTerrace (exSun 180 30)
        [exBuilding 48.0005 55.566] defaultOpts) = 1
   \<and> altitudeDeg (exSun 180 40) \<le> loop_elev exTerrace (exBuilding 48.0005 55.566)
   \<and> confidence (isShadedByBuildings exTerrace (exSun 180 40)
        [exBuilding 48.0005 55.566] defaultOpts) = 1 / 2"
proof -
  have d: "loop_d exTerrace (exBuilding 48.0005 55.566) \<le> maxDist defaultOpts"
    unfolding ex_values by (simp add: defaultOpts_def)
  have tol: "0 < azTolerance defaultOpts"
    by (simp add: defaultOpts_def)
  have elev: "altitudeDeg (exSun az 30) \<le> loop_elev exTerrace (exBuilding 48.0005 55.566)"
    "altitudeDeg (exSun az 40) \<le> loop_elev exTerrace (exBuilding 48.0005 55.566)" for az
    unfolding ex_values by (simp_all add: exSun_def)
  have margin: "10 \<le> loop_elev exTerrace (exBuilding 48.0005 55.566)
                       - altitudeDeg (exSun 180 30)"
    unfolding ex_values by (simp add: exSun_def)
  have edge: "loop_delta exTerrace (exSun 205 30) (exBuilding 48.0005 55.566)
                = azTolerance defaultOpts"
    unfolding ex_values by (simp add: defaultOpts_def)
  have line: "loop_delta exTerrace (exSun 180 alt) (exBuilding 48.0005 55.566) = 0" for alt
    unfolding ex_values by simp
  have le: "loop_delta exTerrace (exSun 205 30) (exBuilding 48.0005 55.566)
              \<le> azTolerance defaultOpts"
    "loop_delta exTerrace (exSun 180 alt) (exBuilding 48.0005 55.566)
              \<le> azTolerance defaultOpts" for alt
    unfolding ex_values by (simp_all add: defaultOpts_def)
  from confidence_formula [OF d le(1) elev(1) tol] edge
  have zero: "confidence (isShadedByBuildings exTerrace (exSun 205 30)
        [exBuilding 48.0005 55.566] defaultOpts) = 0"
    by blast
  from confidence_formula [OF d le(2) elev(1) tol] line margin
  have one: "confidence (isShadedByBuildings exTerrace (exSun 180 30)
        [exBuilding 48.0005 55.566] defaultOpts) = 1"
    by blast
  from confidence_formula [OF d le(2) elev(2) tol]
  have "confidence (isShadedByBuildings exTerrace (exSun 180 40)
        [exBuilding 48.0005 55.566] defaultOpts)
      = min 1 (((loop_elev exTerrace (exBuilding 48.0005 55.566) - altitudeDeg (exSun 180 40))
                / 10)
               * (1 - loop_delta exTerrace (exSun 180 40) (exBuilding 48.0005 55.566)
                      / azTolerance defaultOpts))"
    by blast
  then have half: "confidence (isShadedByBuildings exTerrace (exSun 180 40)
        [exBuilding 48.0005 55.566] defaultOpts) = 1 / 2"
    unfolding ex_values by (simp add: exSun_def defaultOpts_def)
  from d tol elev edge zero line margin one half show ?thesis by blast
qed

end
